theory Spec2Isabelle
  imports Main "HOL-Library.Word" "HOL-Library.Sublist"
begin

section \<open>JavaScript strings\<close>

text \<open>
  A JavaScript string is a sequence of UTF-16 code units and \<open>length\<close> counts code
  units, so a string is a list of 16-bit words. \<open>js\<close> embeds an ASCII literal.
\<close>

type_synonym jschar = "16 word"
type_synonym jsstring = "jschar list"

definition js :: "string \<Rightarrow> jsstring" where
  "js s = map of_char s"

text \<open>
  The characters matched by \<open>\s\<close> in a regular expression and removed by
  \<open>String.prototype.trim\<close>: WhiteSpace and LineTerminator of ECMAScript.
\<close>

definition isWhiteSpace :: "jschar \<Rightarrow> bool" where
  "isWhiteSpace c \<longleftrightarrow>
     c \<in> set [0x9, 0xA, 0xB, 0xC, 0xD, 0x20, 0xA0, 0x1680, 0x2028, 0x2029,
                0x202F, 0x205F, 0x3000, 0xFEFF]
     \<or> (0x2000 \<le> c \<and> c \<le> 0x200A)"

definition trim :: "jsstring \<Rightarrow> jsstring" where
  "trim s = rev (dropWhile isWhiteSpace (rev (dropWhile isWhiteSpace s)))"

text \<open>\<open>s.split(/[...]/)\<close> for a character class \<open>p\<close>: one more piece than separators.\<close>

fun split_on :: "(jschar \<Rightarrow> bool) \<Rightarrow> jsstring \<Rightarrow> jsstring list" where
  "split_on p [] = [[]]"
| "split_on p (c # cs) =
     (if p c then [] # split_on p cs
      else (c # hd (split_on p cs)) # tl (split_on p cs))"

text \<open>\<open>text.includes(k)\<close> and \<open>text.indexOf(k)\<close> (\<open>None\<close> for -1).\<close>

fun indexOf :: "jsstring \<Rightarrow> jsstring \<Rightarrow> nat option" where
  "indexOf [] k = (if k = [] then Some 0 else None)"
| "indexOf (c # cs) k =
     (if prefix k (c # cs) then Some 0 else map_option Suc (indexOf cs k))"

definition js_includes :: "jsstring \<Rightarrow> jsstring \<Rightarrow> bool" where
  "js_includes s k \<longleftrightarrow> indexOf s k \<noteq> None"

section \<open>Story chunking (APIServer.splitTextForStory)\<close>

text \<open>The separators of \<open>/[\<dots>]/\<close> in \<open>splitTextForStory\<close>: the ideographic full stop
  U+3002 and the fullwidth exclamation and question marks U+FF01, U+FF1F.\<close>

definition isSentenceEnd :: "jschar \<Rightarrow> bool" where
  "isSentenceEnd c \<longleftrightarrow> c = 0x3002 \<or> c = 0xFF01 \<or> c = 0xFF1F"

text \<open>One iteration of the \<open>for (const sentence of sentences)\<close> loop; the loop state is
  \<open>(chunks, current)\<close>.\<close>

definition story_step ::
  "nat \<Rightarrow> nat \<Rightarrow> jsstring list \<times> jsstring \<Rightarrow> jsstring \<Rightarrow> jsstring list \<times> jsstring" where
  "story_step firstChunkMaxChars normalChunkMaxChars st sentence =
     (let chunks = fst st; current = snd st; cleanSentence = trim sentence in
      if cleanSentence = [] then (chunks, current)
      else
        let limit = (if length chunks = 0 then firstChunkMaxChars else normalChunkMaxChars);
            candidate = current @ cleanSentence @ [0x3002]
        in if current \<noteq> [] \<and> length candidate > limit
           then (chunks @ [current], cleanSentence @ [0x3002])
           else (chunks, candidate))"

definition splitTextForStory :: "jsstring \<Rightarrow> nat \<Rightarrow> nat \<Rightarrow> jsstring list" where
  "splitTextForStory text firstChunkMaxChars normalChunkMaxChars =
     (let sentences = split_on isSentenceEnd text;
          st = foldl (story_step firstChunkMaxChars normalChunkMaxChars) ([], []) sentences
      in if snd st \<noteq> [] then fst st @ [snd st] else fst st)"

text \<open>
  The specification's reading of the algorithm, for comparison with the code: the
  sentences of a text are its pieces between sentence ends, trimmed, the empty ones
  dropped, each closed by a full stop; they are accumulated greedily into groups, a
  group being closed when the next sentence would take it over the limit of its
  position.
\<close>

definition story_sentences :: "jsstring \<Rightarrow> jsstring list" where
  "story_sentences text =
     map (\<lambda>s. trim s @ [0x3002]) (filter (\<lambda>s. trim s \<noteq> []) (split_on isSentenceEnd text))"

fun spec_accumulate ::
  "nat \<Rightarrow> nat \<Rightarrow> bool \<Rightarrow> jsstring list \<Rightarrow> jsstring list \<Rightarrow> jsstring list list" where
  "spec_accumulate f n is_first cur [] = (if cur = [] then [] else [cur])"
| "spec_accumulate f n is_first cur (s # ss) =
     (if cur \<noteq> [] \<and> length (concat cur @ s) > (if is_first then f else n)
      then cur # spec_accumulate f n False [s] ss
      else spec_accumulate f n is_first (cur @ [s]) ss)"

definition spec_story_groups :: "jsstring \<Rightarrow> nat \<Rightarrow> nat \<Rightarrow> jsstring list list" where
  "spec_story_groups text f n = spec_accumulate f n True [] (story_sentences text)"


text \<open>The text of the specification's example, sentence by sentence
  (U+7B2C U+4E00 U+53E5 U+3002, U+7B2C U+4E8C U+53E5 U+3002, U+7B2C U+4E09 U+53E5 U+3002).\<close>

definition example_story :: jsstring where
  "example_story =
     [0x7B2C, 0x4E00, 0x53E5, 0x3002, 0x7B2C, 0x4E8C, 0x53E5, 0x3002,
      0x7B2C, 0x4E09, 0x53E5, 0x3002]"

section \<open>Errors, collaborator calls and the provider registry (TTSService)\<close>

text \<open>Every \<open>throw\<close> of the source is a value of this type. \<open>External\<close> is an error
  raised by a collaborator (the device, the AI backend, a provider's \<open>synthesize\<close>),
  \<open>TypeError\<close> the error of a call on \<open>undefined\<close>, and \<open>Unsettled\<close> stands for awaiting
  a promise that has not settled.\<close>

datatype error =
    EngineNotReady
  | PlaybackWaitTimeout
  | TextRequired
  | UrlRequired
  | ProviderNameRequired
  | AliasRequired
  | UnsupportedProvider jsstring
  | SynthesisNotSupported jsstring
  | TypeError
  | Unsettled
  | External jsstring

text \<open>The calls the program makes to its collaborators, recorded in the order made.
  \<open>PlayUrl u b\<close> is \<open>play({url, blocking})\<close> (\<open>b\<close> false when the field is absent),
  \<open>Sleep ms\<close> is \<open>setTimeout(resolve, ms)\<close>.\<close>

datatype call =
    AbortXiaoAI
  | PlayText jsstring
  | PlayUrl jsstring bool
  | Synthesize jsstring
  | GetPlayingStatus
  | Sleep nat
  | AskAI jsstring
  | MinaStop

text \<open>A provider's \<open>synthesize\<close> function is a collaborator: its outcome may depend on
  everything that happened before (the calls so far) and on the text.\<close>

type_synonym synth_fn = "call list \<Rightarrow> jsstring \<Rightarrow> error + jsstring"

record TTSService =
  config_provider :: jsstring
  providers :: "jsstring \<rightharpoonup> synth_fn option"
  aliases :: "jsstring \<rightharpoonup> jsstring"

definition DEFAULT_PROVIDER :: jsstring where
  "DEFAULT_PROVIDER = js ''xiaomi''"

text \<open>\<open>String.prototype.toLowerCase\<close> is taken as a parameter \<open>lc\<close> of the registry
  functions; \<open>asciiLower\<close> is its restriction to ASCII, for concrete evaluation.\<close>

definition asciiLower :: "jsstring \<Rightarrow> jsstring" where
  "asciiLower s = map (\<lambda>c. if 0x41 \<le> c \<and> c \<le> 0x5A then c + 0x20 else c) s"

definition registerProvider ::
  "(jsstring \<Rightarrow> jsstring) \<Rightarrow> jsstring \<Rightarrow> synth_fn option \<Rightarrow> TTSService \<Rightarrow> error + TTSService" where
  "registerProvider lc name provider svc =
     (let key = lc (trim name) in
      if key = [] then Inl ProviderNameRequired
      else Inr (svc\<lparr>providers := (providers svc)(key \<mapsto> provider)\<rparr>))"

definition registerAlias ::
  "(jsstring \<Rightarrow> jsstring) \<Rightarrow> jsstring \<Rightarrow> jsstring \<Rightarrow> TTSService \<Rightarrow> error + TTSService" where
  "registerAlias lc alias target svc =
     (let aliasKey = lc (trim alias); targetKey = lc (trim target) in
      if aliasKey = [] \<or> targetKey = [] then Inl AliasRequired
      else Inr (svc\<lparr>aliases := (aliases svc)(aliasKey \<mapsto> targetKey)\<rparr>))"

text \<open>\<open>new TTSService(config)\<close>: the alias table starts as \<open>{doubao: 'volcano'}\<close> and
  \<open>registerBuiltins\<close> registers \<open>xiaomi\<close> (no \<open>synthesize\<close>) and \<open>volcano\<close>.\<close>

definition new_TTSService ::
  "(jsstring \<Rightarrow> jsstring) \<Rightarrow> jsstring \<Rightarrow> synth_fn \<Rightarrow> error + TTSService" where
  "new_TTSService lc provider synthesizeByVolcano =
     (case registerProvider lc (js ''xiaomi'') None
             \<lparr>config_provider = provider, providers = Map.empty,
              aliases = [js ''doubao'' \<mapsto> js ''volcano'']\<rparr> of
        Inl err \<Rightarrow> Inl err
      | Inr svc \<Rightarrow> registerProvider lc (js ''volcano'') (Some synthesizeByVolcano) svc)"

text \<open>\<open>x || y\<close> on strings: the empty string (and \<open>undefined\<close>, modelled by it) is falsy.\<close>

definition or_else :: "jsstring \<Rightarrow> jsstring \<Rightarrow> jsstring" where
  "or_else x y = (if x = [] then y else x)"

definition normalizeProvider ::
  "(jsstring \<Rightarrow> jsstring) \<Rightarrow> TTSService \<Rightarrow> jsstring \<Rightarrow> jsstring" where
  "normalizeProvider lc svc provider =
     (let raw = lc (trim (or_else provider DEFAULT_PROVIDER)) in
      case aliases svc raw of None \<Rightarrow> raw | Some target \<Rightarrow> or_else target raw)"

definition getProvider :: "(jsstring \<Rightarrow> jsstring) \<Rightarrow> TTSService \<Rightarrow> jsstring" where
  "getProvider lc svc = normalizeProvider lc svc (or_else (config_provider svc) DEFAULT_PROVIDER)"

definition getProviderImpl ::
  "(jsstring \<Rightarrow> jsstring) \<Rightarrow> TTSService \<Rightarrow> error + synth_fn option" where
  "getProviderImpl lc svc =
     (let provider = getProvider lc svc in
      case providers svc provider of
        None \<Rightarrow> Inl (UnsupportedProvider provider)
      | Some impl \<Rightarrow> Inr impl)"

definition canSynthesize :: "(jsstring \<Rightarrow> jsstring) \<Rightarrow> TTSService \<Rightarrow> error + bool" where
  "canSynthesize lc svc =
     (case getProviderImpl lc svc of Inl err \<Rightarrow> Inl err | Inr impl \<Rightarrow> Inr (impl \<noteq> None))"

text \<open>\<open>TTSService.synthesize\<close>: \<open>Inr f\<close> is the provider function about to be called.\<close>

definition synthesize :: "(jsstring \<Rightarrow> jsstring) \<Rightarrow> TTSService \<Rightarrow> error + synth_fn" where
  "synthesize lc svc =
     (let provider = getProvider lc svc in
      case getProviderImpl lc svc of
        Inl err \<Rightarrow> Inl err
      | Inr None \<Rightarrow> Inl (SynthesisNotSupported provider)
      | Inr (Some f) \<Rightarrow> Inr f)"

section \<open>The environment of the API server and its state\<close>

text \<open>
  \<open>engine\<close> is what \<open>this.engine.get()\<close> returns, with the truthiness of its \<open>MiNA\<close> and
  \<open>MiOT\<close> fields. The outcome of a device call is a function of the calls made before
  it, so any sequence of successes and failures is an environment. \<open>call_ms\<close> is the
  time a call takes on the clock \<open>Date.now()\<close>; for \<open>Sleep\<close> it is the time until the
  timer has fired.
\<close>

record engine =
  MiNA :: bool
  MiOT :: bool

record storyConfig =
  firstChunkMaxChars :: nat
  normalChunkMaxChars :: nat
  pollIntervalMs :: nat
  waitTimeoutMs :: nat
  systemPrompt :: jsstring
  triggerPattern :: "jsstring \<Rightarrow> bool"

record wakeupConfig =
  wake_keywords :: "jsstring list"
  enterAIMode :: "jsstring list"
  exitAIMode :: "jsstring list"
  stopKeywords :: "jsstring list"
  enterMessage :: jsstring
  exitMessage :: jsstring

record env =
  engine :: "engine option"
  ttsService :: "TTSService option"
  toLowerCase :: "jsstring \<Rightarrow> jsstring"
  story :: storyConfig
  wakeup :: wakeupConfig
  abort_outcome :: "call list \<Rightarrow> error option"
  play_outcome :: "call list \<Rightarrow> call \<Rightarrow> error option"
  status_outcome :: "call list \<Rightarrow> error + bool"
  askAI_outcome :: "call list \<Rightarrow> jsstring \<Rightarrow> error + jsstring"
  stop_outcome :: "call list \<Rightarrow> error option"
  call_ms :: "call list \<Rightarrow> call \<Rightarrow> nat"

record task_error =
  err_type :: jsstring
  err_message :: error
  err_at :: nat

text \<open>The mutable fields of \<open>APIServer\<close>, the calls made so far and the clock
  (\<open>Date.now()\<close>). The promise chain \<open>taskQueue\<close> is modelled further down.\<close>

record state =
  queueDepth :: int
  lastTaskType :: "jsstring option"
  lastTaskError :: "task_error option"
  lastTaskFinishedAt :: "nat option"
  lastSpeakMode :: "jsstring option"
  lastSpeakAt :: "nat option"
  aiConversationMode :: bool
  calls :: "call list"
  now :: nat

type_synonym 'a action = "state \<Rightarrow> (error + 'a) \<times> state"

text \<open>\<open>const x = await m; f x\<close>: a rejection of \<open>m\<close> leaves the function.\<close>

definition await :: "'a action \<Rightarrow> ('a \<Rightarrow> 'b action) \<Rightarrow> 'b action" where
  "await m f s = (case m s of (Inl err, s') \<Rightarrow> (Inl err, s') | (Inr x, s') \<Rightarrow> f x s')"

definition ret :: "'a \<Rightarrow> 'a action" where
  "ret x s = (Inr x, s)"

definition throw :: "error \<Rightarrow> 'a action" where
  "throw err s = (Inl err, s)"

text \<open>\<open>try { m } catch (error) { h }\<close>.\<close>

definition try_catch :: "'a action \<Rightarrow> (error \<Rightarrow> 'a action) \<Rightarrow> 'a action" where
  "try_catch m h s = (case m s of (Inl err, s') \<Rightarrow> h err s' | (Inr x, s') \<Rightarrow> (Inr x, s'))"

text \<open>Making a call appends it to the record and advances the clock by the time the
  call takes on \<open>Date.now()\<close>, which is the environment's. That holds for a sleep too:
  Node runs a timer of delay \<open>d\<close> for about \<open>d\<close> ms when \<open>1 \<le> d \<le> 2147483647\<close> and for 1 ms
  otherwise, and \<open>Date.now()\<close> may show a millisecond less than the timer ran. Of a sleep
  the clock is only taken to show that time has passed, 1 ms at least.\<close>

definition perform :: "env \<Rightarrow> call \<Rightarrow> state \<Rightarrow> state" where
  "perform e c s =
     s\<lparr>calls := calls s @ [c],
       now := now s + (case c of Sleep ms \<Rightarrow> max 1 (call_ms e (calls s) c)
                         | _ \<Rightarrow> call_ms e (calls s) c)\<rparr>"

definition of_outcome :: "error option \<Rightarrow> error + unit" where
  "of_outcome r = (case r of None \<Rightarrow> Inr () | Some err \<Rightarrow> Inl err)"

definition abortXiaoAI :: "env \<Rightarrow> unit action" where
  "abortXiaoAI e s = (of_outcome (abort_outcome e (calls s)), perform e AbortXiaoAI s)"

definition play :: "env \<Rightarrow> call \<Rightarrow> unit action" where
  "play e c s = (of_outcome (play_outcome e (calls s) c), perform e c s)"

definition getPlayingStatus :: "env \<Rightarrow> bool action" where
  "getPlayingStatus e s = (status_outcome e (calls s), perform e GetPlayingStatus s)"

definition askAI :: "env \<Rightarrow> jsstring \<Rightarrow> jsstring action" where
  "askAI e text s = (askAI_outcome e (calls s) text, perform e (AskAI text) s)"

text \<open>\<open>engine.MiNA.stop()\<close>: with no \<open>MiNA\<close> the property access throws and no call is
  made.\<close>

definition MiNA_stop :: "env \<Rightarrow> unit action" where
  "MiNA_stop e s =
     (case engine e of
        None \<Rightarrow> (Inl TypeError, s)
      | Some g \<Rightarrow>
          if MiNA g then (of_outcome (stop_outcome e (calls s)), perform e MinaStop s)
          else (Inl TypeError, s))"

definition sleep :: "env \<Rightarrow> nat \<Rightarrow> unit action" where
  "sleep e ms s = (Inr (), perform e (Sleep ms) s)"

text \<open>\<open>this.ttsService.synthesize(text)\<close> as called by the API server: the provider's
  function is called, and recorded, only when the registry finds one.\<close>

definition tts_synthesize :: "env \<Rightarrow> jsstring \<Rightarrow> jsstring action" where
  "tts_synthesize e text s =
     (case ttsService e of
        None \<Rightarrow> (Inl TypeError, s)
      | Some svc \<Rightarrow>
          (case synthesize (toLowerCase e) svc of
             Inl err \<Rightarrow> (Inl err, s)
           | Inr f \<Rightarrow> (f (calls s) text, perform e (Synthesize text) s)))"

section \<open>APIServer: speaking, story mode, chat, play\<close>

definition getEngineOrThrow :: "env \<Rightarrow> engine action" where
  "getEngineOrThrow e s =
     (case engine e of
        None \<Rightarrow> (Inl EngineNotReady, s)
      | Some g \<Rightarrow> if \<not> MiNA g \<or> \<not> MiOT g then (Inl EngineNotReady, s) else (Inr g, s))"

function wait_loop :: "env \<Rightarrow> nat \<Rightarrow> state \<Rightarrow> (error + unit) \<times> state" where
  "wait_loop e startTime s =
     (if now s - startTime < waitTimeoutMs (story e) then
        (case getPlayingStatus e s of
           (Inl err, s1) \<Rightarrow> (Inl err, s1)
         | (Inr is_playing, s1) \<Rightarrow>
             if \<not> is_playing then (Inr (), s1)
             else wait_loop e startTime (snd (sleep e (pollIntervalMs (story e)) s1)))
      else (Inl PlaybackWaitTimeout, s))"
  by pat_completeness auto
termination
  by (relation "measure (\<lambda>(e, startTime, s). startTime + waitTimeoutMs (story e) - now s)")
     (auto simp: getPlayingStatus_def sleep_def perform_def)

definition waitForAudioComplete :: "env \<Rightarrow> unit action" where
  "waitForAudioComplete e =
     await (getEngineOrThrow e) (\<lambda>_ s. wait_loop e (now s) s)"

text \<open>The \<open>for\<close> loop of \<open>speakStoryMode\<close>, from index \<open>i\<close> over the remaining chunks.\<close>

fun story_loop :: "env \<Rightarrow> nat \<Rightarrow> jsstring list \<Rightarrow> state \<Rightarrow> (error + unit) \<times> state" where
  "story_loop e i [] s = (Inr (), s)"
| "story_loop e i (chunk # rest) s =
     (case tts_synthesize e chunk s of
        (Inl err, s1) \<Rightarrow> (Inl err, s1)
      | (Inr audioUrl, s1) \<Rightarrow>
          (case (if i = 0 then play e (PlayUrl audioUrl False) s1
                 else await (waitForAudioComplete e) (\<lambda>_. play e (PlayUrl audioUrl False)) s1) of
             (Inl err, s2) \<Rightarrow> (Inl err, s2)
           | (Inr _, s2) \<Rightarrow> story_loop e (Suc i) rest s2))"

definition story_chunks :: "env \<Rightarrow> jsstring \<Rightarrow> jsstring list" where
  "story_chunks e text =
     (let first = firstChunkMaxChars (story e);
          normal = (if normalChunkMaxChars (story e) = 0 then first
                    else normalChunkMaxChars (story e))
      in splitTextForStory text first normal)"

definition speakStoryMode :: "env \<Rightarrow> jsstring \<Rightarrow> jsstring action" where
  "speakStoryMode e text =
     await (getEngineOrThrow e) (\<lambda>_.
     await (story_loop e 0 (story_chunks e text)) (\<lambda>_.
     ret (js ''story'')))"

definition set_lastSpeak :: "jsstring \<Rightarrow> jsstring action" where
  "set_lastSpeak mode s = (Inr mode, s\<lparr>lastSpeakMode := Some mode, lastSpeakAt := Some (now s)\<rparr>)"

text \<open>\<open>this.ttsService?.getProvider?.() || 'xiaomi'\<close> and
  \<open>this.ttsService?.canSynthesize?.()\<close>.\<close>

definition ttsProvider :: "env \<Rightarrow> jsstring" where
  "ttsProvider e =
     (case ttsService e of
        None \<Rightarrow> js ''xiaomi''
      | Some svc \<Rightarrow> or_else (getProvider (toLowerCase e) svc) (js ''xiaomi''))"

definition tts_canSynthesize :: "env \<Rightarrow> bool action" where
  "tts_canSynthesize e s =
     (case ttsService e of
        None \<Rightarrow> (Inr False, s)
      | Some svc \<Rightarrow> (canSynthesize (toLowerCase e) svc, s))"

definition speakByXiaomi :: "env \<Rightarrow> jsstring \<Rightarrow> jsstring action" where
  "speakByXiaomi e text =
     await (play e (PlayText text)) (\<lambda>_. set_lastSpeak (js ''xiaomi''))"

definition speakByTTS :: "env \<Rightarrow> jsstring \<Rightarrow> bool \<Rightarrow> jsstring action" where
  "speakByTTS e text storyMode =
     (if storyMode then
        await (speakStoryMode e text) (\<lambda>_.
        set_lastSpeak (js ''tts:'' @ ttsProvider e @ js '':story''))
      else
        await (tts_synthesize e text) (\<lambda>audioUrl.
        await (play e (PlayUrl audioUrl False)) (\<lambda>_.
        set_lastSpeak (js ''tts:'' @ ttsProvider e))))"

definition speakByText :: "env \<Rightarrow> jsstring \<Rightarrow> bool \<Rightarrow> bool \<Rightarrow> jsstring action" where
  "speakByText e text interrupt storyMode =
     await (getEngineOrThrow e) (\<lambda>_.
     await (if interrupt then abortXiaoAI e else ret ()) (\<lambda>_.
     await (tts_canSynthesize e) (\<lambda>can.
     if can then try_catch (speakByTTS e text storyMode) (\<lambda>_. speakByXiaomi e text)
     else speakByXiaomi e text)))"

text \<open>The values tasks resolve to: \<open>undefined\<close>, a string (a mode), or the
  \<open>{mode, replyText}\<close> of \<open>askAndSpeak\<close> (\<open>mode\<close> may be \<open>null\<close>).\<close>

datatype jsval = Undefined | Str jsstring | ChatResult "jsstring option" jsstring

definition askAndSpeak :: "env \<Rightarrow> jsstring \<Rightarrow> bool \<Rightarrow> bool \<Rightarrow> jsval action" where
  "askAndSpeak e text interrupt storyMode =
     await (getEngineOrThrow e) (\<lambda>_.
     await (if interrupt then abortXiaoAI e else ret ()) (\<lambda>_.
     await (askAI e text) (\<lambda>replyText.
     if replyText = [] then ret (ChatResult None [])
     else await (speakByText e replyText False storyMode) (\<lambda>mode.
          ret (ChatResult (Some mode) replyText)))))"

definition playByUrl :: "env \<Rightarrow> jsstring \<Rightarrow> bool \<Rightarrow> bool \<Rightarrow> jsval action" where
  "playByUrl e url interrupt blocking =
     await (getEngineOrThrow e) (\<lambda>_.
     await (if interrupt then abortXiaoAI e else ret ()) (\<lambda>_.
     await (play e (PlayUrl url blocking)) (\<lambda>_.
     ret (Str (js ''url'')))))"

section \<open>The task queue (APIServer.enqueueTask)\<close>

text \<open>
  \<open>this.taskQueue\<close> is a promise; each \<open>enqueueTask\<close> replaces it by
  \<open>this.taskQueue.then(wrappedTask, wrappedTask)\<close>. The chain of promises so made is a list
  of entries, one per call and in call order: entry \<open>k\<close> holds the wrapped task
  registered on promise \<open>k - 1\<close> and the state of promise \<open>k\<close>, which the caller awaits.
  The initial promise \<open>Promise.resolve()\<close> is settled. \<open>log\<close> records when wrapped tasks
  start and finish; the program does not read it.
\<close>

datatype pstate = Waiting | Running | Fulfilled jsval | Rejected error

record entry =
  etype :: jsstring
  ebody :: "jsval action"
  estate :: pstate

datatype log_event = Started nat | Finished nat

record server =
  st :: state
  chain :: "entry list"
  log :: "log_event list"

definition new_server :: "state \<Rightarrow> server" where
  "new_server s = \<lparr>st = s, chain = [], log = []\<rparr>"

text \<open>The \<open>finally\<close> block of \<open>wrappedTask\<close>.\<close>

definition task_finally :: "jsstring \<Rightarrow> state \<Rightarrow> state" where
  "task_finally taskType s =
     s\<lparr>queueDepth := max 0 (queueDepth s - 1),
       lastTaskType := Some taskType,
       lastTaskFinishedAt := Some (now s)\<rparr>"

definition wrappedTask :: "jsval action \<Rightarrow> jsstring \<Rightarrow> jsval action" where
  "wrappedTask task taskType s =
     (case task s of
        (Inr result, s1) \<Rightarrow> (Inr result, task_finally taskType (s1\<lparr>lastTaskError := None\<rparr>))
      | (Inl err, s1) \<Rightarrow>
          (Inl err,
           task_finally taskType
             (s1\<lparr>lastTaskError :=
                   Some \<lparr>err_type = taskType, err_message = err, err_at = now s1\<rparr>\<rparr>)))"

text \<open>The synchronous part of \<open>enqueueTask(task, {type})\<close>; an empty \<open>type\<close> stands for
  a missing one.\<close>

definition enqueueTask :: "jsval action \<Rightarrow> jsstring \<Rightarrow> server \<Rightarrow> server" where
  "enqueueTask task meta_type q =
     (let taskType = or_else meta_type (js ''task'') in
      q\<lparr>st := (st q)\<lparr>queueDepth := queueDepth (st q) + 1\<rparr>,
        chain := chain q @ [\<lparr>etype = taskType, ebody = wrappedTask task taskType,
                             estate = Waiting\<rparr>]\<rparr>)"

definition settled :: "pstate \<Rightarrow> bool" where
  "settled p = (case p of Fulfilled _ \<Rightarrow> True | Rejected _ \<Rightarrow> True | _ \<Rightarrow> False)"

text \<open>
  What can happen next is an event: a caller submits a task, the runtime starts the
  wrapped task of entry \<open>k\<close>, or the running wrapped task of entry \<open>k\<close> finishes. By
  \<open>then(wrappedTask, wrappedTask)\<close> the wrapped task of entry \<open>k\<close> is the reaction to
  the fulfilment and to the rejection of promise \<open>k - 1\<close>, so it can start once that
  promise has settled either way. An event that cannot happen leaves the server as it
  is. The body of a task takes effect when it finishes.
\<close>

datatype event = Submit "jsval action" jsstring | Start nat | Finish nat

definition can_start :: "server \<Rightarrow> nat \<Rightarrow> bool" where
  "can_start q k \<longleftrightarrow>
     k < length (chain q) \<and> estate (chain q ! k) = Waiting \<and>
     (k = 0 \<or> settled (estate (chain q ! (k - 1))))"

definition can_finish :: "server \<Rightarrow> nat \<Rightarrow> bool" where
  "can_finish q k \<longleftrightarrow> k < length (chain q) \<and> estate (chain q ! k) = Running"

definition settle :: "error + jsval \<Rightarrow> pstate" where
  "settle r = (case r of Inr v \<Rightarrow> Fulfilled v | Inl err \<Rightarrow> Rejected err)"

fun step :: "event \<Rightarrow> server \<Rightarrow> server" where
  "step (Submit task meta_type) q = enqueueTask task meta_type q"
| "step (Start k) q =
     (if can_start q k
      then q\<lparr>chain := (chain q)[k := (chain q ! k)\<lparr>estate := Running\<rparr>],
             log := log q @ [Started k]\<rparr>
      else q)"
| "step (Finish k) q =
     (if can_finish q k
      then (let r = ebody (chain q ! k) (st q) in
            q\<lparr>st := snd r,
              chain := (chain q)[k := (chain q ! k)\<lparr>estate := settle (fst r)\<rparr>],
              log := log q @ [Finished k]\<rparr>)
      else q)"

definition exec :: "event list \<Rightarrow> server \<Rightarrow> server" where
  "exec evs q = foldl (\<lambda>q ev. step ev q) q evs"

text \<open>Letting the runtime run until nothing is left to do: every entry in turn is
  started and finished.\<close>

definition drain_events :: "nat \<Rightarrow> event list" where
  "drain_events n = concat (map (\<lambda>k. [Start k, Finish k]) [0..<n])"

definition drain :: "server \<Rightarrow> server" where
  "drain q = exec (drain_events (length (chain q))) q"

text \<open>\<open>await this.enqueueTask(task, {type})\<close> seen from one caller with no other caller
  active: the task is submitted, the queue runs, and the caller gets what its promise,
  the last of the chain, settled to.\<close>

definition await_entry :: "entry \<Rightarrow> error + jsval" where
  "await_entry en =
     (case estate en of Fulfilled v \<Rightarrow> Inr v | Rejected err \<Rightarrow> Inl err | _ \<Rightarrow> Inl Unsettled)"

definition enqueue_and_await ::
  "jsval action \<Rightarrow> jsstring \<Rightarrow> server \<Rightarrow> (error + jsval) \<times> server" where
  "enqueue_and_await task meta_type q =
     (let q' = drain (enqueueTask task meta_type q) in (await_entry (last (chain q')), q'))"

text \<open>The sequence of log events of \<open>m\<close> tasks run one after the other, followed by the
  start of the next when \<open>running\<close>.\<close>

definition serial_log :: "nat \<Rightarrow> bool \<Rightarrow> log_event list" where
  "serial_log m running =
     concat (map (\<lambda>k. [Started k, Finished k]) [0..<m]) @ (if running then [Started m] else [])"

definition submissions :: "event list \<Rightarrow> (jsstring \<times> jsval action) list" where
  "submissions evs =
     concat (map (\<lambda>ev. case ev of
                          Submit task ty \<Rightarrow> [(or_else ty (js ''task''), task)]
                        | _ \<Rightarrow> []) evs)"

section \<open>The HTTP handlers\<close>

record speak_body =
  b_text :: jsstring
  b_interrupt :: "bool option"
  b_storyMode :: "bool option"

record play_body =
  p_url :: jsstring
  p_interrupt :: "bool option"
  p_blocking :: "bool option"

datatype response =
    SpeakResponse jsval jsstring
  | ChatResponse jsval
  | PlayResponse jsval jsstring

definition as_val :: "jsstring action \<Rightarrow> jsval action" where
  "as_val m = await m (\<lambda>x. ret (Str x))"

definition handleSpeak :: "env \<Rightarrow> speak_body \<Rightarrow> server \<Rightarrow> (error + response) \<times> server" where
  "handleSpeak e body q =
     (let text = trim (b_text body) in
      if text = [] then (Inl TextRequired, q)
      else
        let interrupt = (b_interrupt body \<noteq> Some False);
            storyMode = (b_storyMode body = Some True)
        in case enqueue_and_await (as_val (speakByText e text interrupt storyMode))
                  (js ''api:speak'') q of
             (Inl err, q') \<Rightarrow> (Inl err, q')
           | (Inr mode, q') \<Rightarrow> (Inr (SpeakResponse mode text), q'))"

definition handleChat :: "env \<Rightarrow> speak_body \<Rightarrow> server \<Rightarrow> (error + response) \<times> server" where
  "handleChat e body q =
     (let text = trim (b_text body) in
      if text = [] then (Inl TextRequired, q)
      else
        let interrupt = (b_interrupt body \<noteq> Some False);
            storyMode = (b_storyMode body = Some True)
        in case enqueue_and_await (askAndSpeak e text interrupt storyMode) (js ''api:chat'') q of
             (Inl err, q') \<Rightarrow> (Inl err, q')
           | (Inr result, q') \<Rightarrow> (Inr (ChatResponse result), q'))"

definition handlePlay :: "env \<Rightarrow> play_body \<Rightarrow> server \<Rightarrow> (error + response) \<times> server" where
  "handlePlay e body q =
     (let url = trim (p_url body) in
      if url = [] then (Inl UrlRequired, q)
      else
        let interrupt = (p_interrupt body \<noteq> Some False);
            blocking = (p_blocking body = Some True)
        in case enqueue_and_await (playByUrl e url interrupt blocking) (js ''api:play'') q of
             (Inl err, q') \<Rightarrow> (Inl err, q')
           | (Inr mode, q') \<Rightarrow> (Inr (PlayResponse mode url), q'))"

section \<open>The voice interpreter (MessageHandler)\<close>

text \<open>The class \<open>[\<dots>]\<close> of \<open>normalizeText\<close>: fullwidth comma U+FF0C, ideographic full stop
  U+3002, ASCII comma, full stop, exclamation and question marks, and their fullwidth
  forms U+FF01, U+FF1F. \<open>extractUserIntent\<close> strips these, the colon and whitespace.\<close>

definition isPunct :: "jschar \<Rightarrow> bool" where
  "isPunct c \<longleftrightarrow> c \<in> set [0xFF0C, 0x3002, 0x2C, 0x2E, 0x21, 0x3F, 0xFF01, 0xFF1F]"

definition normalizeText :: "jsstring \<Rightarrow> jsstring" where
  "normalizeText text =
     filter (\<lambda>c. \<not> isPunct c) (filter (\<lambda>c. \<not> isWhiteSpace c) (trim text))"

definition isStopCommand :: "wakeupConfig \<Rightarrow> jsstring \<Rightarrow> bool" where
  "isStopCommand w normalizedText =
     list_ex (\<lambda>keyword. js_includes normalizedText (normalizeText keyword)) (stopKeywords w)"

definition isEnterAIModeCommand :: "wakeupConfig \<Rightarrow> jsstring \<Rightarrow> bool" where
  "isEnterAIModeCommand w normalizedText =
     list_ex (\<lambda>keyword. normalizedText = normalizeText keyword) (enterAIMode w)"

definition isExitAIModeCommand :: "wakeupConfig \<Rightarrow> jsstring \<Rightarrow> bool" where
  "isExitAIModeCommand w normalizedText =
     list_ex (\<lambda>keyword. normalizedText = normalizeText keyword) (exitAIMode w)"

definition findMatchedKeyword :: "wakeupConfig \<Rightarrow> jsstring \<Rightarrow> jsstring option" where
  "findMatchedKeyword w text = find (\<lambda>keyword. js_includes text keyword) (wake_keywords w)"

definition isIntentLead :: "jschar \<Rightarrow> bool" where
  "isIntentLead c \<longleftrightarrow> isPunct c \<or> c = 0x3A \<or> isWhiteSpace c"

text \<open>\<open>fullText.slice(fullText.indexOf(keyword) + keyword.length)\<close>: an index of -1 and
  a keyword of length \<open>n > 0\<close> give \<open>slice(n - 1)\<close>.\<close>

definition extractUserIntent :: "jsstring \<Rightarrow> jsstring \<Rightarrow> jsstring" where
  "extractUserIntent fullText keyword =
     (let start = (case indexOf fullText keyword of
                     Some i \<Rightarrow> i + length keyword
                   | None \<Rightarrow> length keyword - 1);
          raw = trim (drop start fullText)
      in dropWhile isIntentLead raw)"

definition isStoryRequest :: "env \<Rightarrow> jsstring \<Rightarrow> bool" where
  "isStoryRequest e text = triggerPattern (story e) text"

text \<open>The bodies of the tasks \<open>handle\<close> submits.\<close>

definition voice_stop :: "env \<Rightarrow> jsval action" where
  "voice_stop e =
     await (try_catch (abortXiaoAI e) (\<lambda>_. ret ())) (\<lambda>_.
     await (try_catch (MiNA_stop e) (\<lambda>_. ret ())) (\<lambda>_.
     ret Undefined))"

definition voice_chat :: "env \<Rightarrow> jsstring \<Rightarrow> jsval action" where
  "voice_chat e userText =
     try_catch
       (await (abortXiaoAI e) (\<lambda>_.
        let storyMode = isStoryRequest e userText;
            aiText = (if storyMode then userText @ [0xA] @ systemPrompt (story e) else userText)
        in await (askAI e aiText) (\<lambda>replyText.
           if replyText \<noteq> [] then
             await (speakByText e replyText False storyMode) (\<lambda>_. ret Undefined)
           else ret Undefined)))
       (\<lambda>_. ret Undefined)"

datatype handle_result = NotHandled | Handled

definition set_aiConversationMode :: "bool \<Rightarrow> server \<Rightarrow> server" where
  "set_aiConversationMode b q = q\<lparr>st := (st q)\<lparr>aiConversationMode := b\<rparr>\<rparr>"

text \<open>\<open>handle(msg)\<close> on the text of the message. \<open>NotHandled\<close> is the \<open>undefined\<close> that
  leaves the reply to the device. A keyword is truthy when it is not empty.\<close>

definition handle :: "env \<Rightarrow> jsstring \<Rightarrow> server \<Rightarrow> (error + handle_result) \<times> server" where
  "handle e text q =
     (case engine e of
        None \<Rightarrow> (Inr NotHandled, q)
      | Some _ \<Rightarrow>
          let normalizedText = normalizeText text in
          if isStopCommand (wakeup e) normalizedText then
            (case enqueue_and_await (voice_stop e) (js ''voice:stop'') q of
               (Inl err, q') \<Rightarrow> (Inl err, q')
             | (Inr _, q') \<Rightarrow> (Inr Handled, q'))
          else if isEnterAIModeCommand (wakeup e) normalizedText then
            (case enqueue_and_await
                    (as_val (speakByText e (enterMessage (wakeup e)) True False))
                    (js ''voice:enter-ai-mode'') (set_aiConversationMode True q) of
               (Inl err, q') \<Rightarrow> (Inl err, q')
             | (Inr _, q') \<Rightarrow> (Inr Handled, q'))
          else if isExitAIModeCommand (wakeup e) normalizedText then
            (case enqueue_and_await
                    (as_val (speakByText e (exitMessage (wakeup e)) True False))
                    (js ''voice:exit-ai-mode'') (set_aiConversationMode False q) of
               (Inl err, q') \<Rightarrow> (Inl err, q')
             | (Inr _, q') \<Rightarrow> (Inr Handled, q'))
          else
            let matchedKeyword =
                  (case findMatchedKeyword (wakeup e) text of
                     None \<Rightarrow> None
                   | Some keyword \<Rightarrow> if keyword = [] then None else Some keyword);
                shouldHandleAI = (aiConversationMode (st q) \<or> matchedKeyword \<noteq> None)
            in if \<not> shouldHandleAI then (Inr NotHandled, q)
               else
                 let userText = (case matchedKeyword of
                                   Some keyword \<Rightarrow> extractUserIntent text keyword
                                 | None \<Rightarrow> text)
                 in if userText = [] then (Inr Handled, q)
                    else (Inr Handled, enqueueTask (voice_chat e userText) (js ''voice:chat'') q))"

section \<open>A working device\<close>

text \<open>A device on which every call succeeds at once and nothing is playing, with the
  built-in providers, configured for \<open>provider\<close>; the built-in \<open>volcano\<close> synthesis
  answers with the URL \<open>u\<close>.\<close>

definition ok_synth :: synth_fn where
  "ok_synth tr text = Inr (js ''u'')"

definition builtin_tts :: "jsstring \<Rightarrow> synth_fn \<Rightarrow> TTSService option" where
  "builtin_tts provider f =
     (case new_TTSService asciiLower provider f of Inl _ \<Rightarrow> None | Inr svc \<Rightarrow> Some svc)"

definition no_wakeup :: wakeupConfig where
  "no_wakeup = \<lparr>wake_keywords = [], enterAIMode = [], exitAIMode = [], stopKeywords = [],
                enterMessage = js ''enter'', exitMessage = js ''exit''\<rparr>"

definition test_story :: storyConfig where
  "test_story = \<lparr>firstChunkMaxChars = 5, normalChunkMaxChars = 10, pollIntervalMs = 700,
                 waitTimeoutMs = 2000, systemPrompt = [], triggerPattern = (\<lambda>_. False)\<rparr>"

text \<open>The clock of a device whose calls take no time and whose timers run exactly as
  long as Node sets them: a delay \<open>d\<close> with \<open>1 \<le> d \<le> 2147483647\<close> for \<open>d\<close> ms, any other
  delay for 1 ms.\<close>

definition timer_ms :: "nat \<Rightarrow> nat" where
  "timer_ms d = (if 1 \<le> d \<and> d \<le> 2147483647 then d else 1)"

definition timer_clock :: "call list \<Rightarrow> call \<Rightarrow> nat" where
  "timer_clock tr c = (case c of Sleep d \<Rightarrow> timer_ms d | _ \<Rightarrow> 0)"

definition ok_env :: "jsstring \<Rightarrow> env" where
  "ok_env provider =
     \<lparr>engine = Some \<lparr>MiNA = True, MiOT = True\<rparr>,
      ttsService = builtin_tts provider ok_synth,
      toLowerCase = asciiLower,
      story = test_story,
      wakeup = no_wakeup,
      abort_outcome = (\<lambda>_. None),
      play_outcome = (\<lambda>_ _. None),
      status_outcome = (\<lambda>_. Inr False),
      askAI_outcome = (\<lambda>_ _. Inr (js ''hi'')),
      stop_outcome = (\<lambda>_. None),
      call_ms = timer_clock\<rparr>"

definition state0 :: state where
  "state0 = \<lparr>queueDepth = 0, lastTaskType = None, lastTaskError = None,
             lastTaskFinishedAt = None, lastSpeakMode = None, lastSpeakAt = None,
             aiConversationMode = False, calls = [], now = 0\<rparr>"

section \<open>Notions used in the statements, and concrete inputs\<close>

text \<open>Alias tables for concrete evaluation: the built-in table, then \<open>a\<close> registered
  for \<open>b\<close>, then \<open>b\<close> registered for \<open>c\<close>.\<close>

definition svc_base :: TTSService where
  "svc_base = \<lparr>config_provider = [], providers = Map.empty,
               aliases = [js ''doubao'' \<mapsto> js ''volcano'']\<rparr>"

definition svc_ab :: TTSService where
  "svc_ab = \<lparr>config_provider = [], providers = Map.empty,
             aliases = [js ''doubao'' \<mapsto> js ''volcano'', js ''a'' \<mapsto> js ''b'']\<rparr>"

definition svc_abc :: TTSService where
  "svc_abc = \<lparr>config_provider = [], providers = Map.empty,
              aliases = [js ''doubao'' \<mapsto> js ''volcano'', js ''a'' \<mapsto> js ''b'',
                         js ''b'' \<mapsto> js ''c'']\<rparr>"

text \<open>An alias is registered for a target when the table maps the normalized alias to
  the normalized target, as \<open>registerAlias\<close> stores them.\<close>

definition registered ::
  "(jsstring \<Rightarrow> jsstring) \<Rightarrow> TTSService \<Rightarrow> jsstring \<Rightarrow> jsstring \<Rightarrow> bool" where
  "registered lc svc alias target \<longleftrightarrow>
     lc (trim alias) \<noteq> [] \<and> lc (trim target) \<noteq> [] \<and>
     aliases svc (lc (trim alias)) = Some (lc (trim target))"

text \<open>How far the chain has got: the number of settled entries at its front, and
  whether a wrapped task is running.\<close>

definition settled_count :: "server \<Rightarrow> nat" where
  "settled_count q = length (takeWhile (\<lambda>en. settled (estate en)) (chain q))"

definition is_running :: "server \<Rightarrow> bool" where
  "is_running q = list_ex (\<lambda>en. estate en = Running) (chain q)"

text \<open>The shape of the chain of a server that has settled \<open>m\<close> entries: these come
  first, then the running one if any, then the waiting ones; the log is that of a
  serial run.\<close>

definition chain_shape :: "server \<Rightarrow> nat \<Rightarrow> bool \<Rightarrow> bool" where
  "chain_shape q m r \<longleftrightarrow>
     m + (if r then 1 else 0) \<le> length (chain q) \<and>
     (\<forall>k<m. settled (estate (chain q ! k))) \<and>
     (r \<longrightarrow> estate (chain q ! m) = Running) \<and>
     (\<forall>k<length (chain q). m + (if r then 1 else 0) \<le> k \<longrightarrow> estate (chain q ! k) = Waiting) \<and>
     log q = serial_log m r"

definition entry_task :: "entry \<Rightarrow> jsstring \<times> jsval action" where
  "entry_task en = (etype en, ebody en)"

text \<open>The server at the moment a caller's own task gets its turn: the task has been
  submitted and every earlier entry has run.\<close>

definition own_turn :: "jsval action \<Rightarrow> jsstring \<Rightarrow> server \<Rightarrow> server" where
  "own_turn task meta_type q =
     exec (drain_events (length (chain q))) (enqueueTask task meta_type q)"

text \<open>What the claim asks of the queue, as a program of its own: the bodies of the
  tasks are run one after the other in the order given, each on the state its
  predecessor left, whether that one returned or threw, and after each body the queue
  status is brought up to date. The outcomes are collected in the same order.\<close>

definition status_after :: "jsstring \<Rightarrow> error + jsval \<Rightarrow> state \<Rightarrow> state" where
  "status_after ty r s =
     s\<lparr>queueDepth := max 0 (queueDepth s - 1),
       lastTaskType := Some ty,
       lastTaskError :=
         (case r of
            Inr _ \<Rightarrow> None
          | Inl err \<Rightarrow> Some \<lparr>err_type = ty, err_message = err, err_at = now s\<rparr>),
       lastTaskFinishedAt := Some (now s)\<rparr>"

fun run_in_order :: "(jsstring \<times> jsval action) list \<Rightarrow> state \<Rightarrow> pstate list \<times> state" where
  "run_in_order [] s = ([], s)"
| "run_in_order ((ty, task) # tasks) s =
     (case task s of
        (r, s1) \<Rightarrow>
          (case run_in_order tasks (status_after ty r s1) of
             (ps, s2) \<Rightarrow> (settle r # ps, s2)))"

text \<open>Submitting tasks one after the other, before the runtime does anything.\<close>

definition submit_all :: "(jsstring \<times> jsval action) list \<Rightarrow> event list" where
  "submit_all tasks = map (\<lambda>(ty, task). Submit task ty) tasks"

text \<open>Two submissions, the first of a task that aborts the assistant and then throws,
  the second of one that speaks a text, with the runtime's events in between (some of
  them not enabled when they come).\<close>

definition failing_task :: "jsval action" where
  "failing_task =
     await (abortXiaoAI (ok_env (js ''xiaomi''))) (\<lambda>_. throw (External (js ''boom'')))"

definition speaking_task :: "jsval action" where
  "speaking_task = as_val (speakByXiaomi (ok_env (js ''xiaomi'')) (js ''hi''))"

definition queue_example :: "event list" where
  "queue_example =
     [Submit failing_task (js ''first''), Start 1, Start 0,
      Submit speaking_task [], Start 1, Finish 1, Finish 0, Start 1]"

text \<open>The engine passes the check of \<open>getEngineOrThrow\<close>.\<close>

definition engine_ready :: "env \<Rightarrow> bool" where
  "engine_ready e = (case engine e of None \<Rightarrow> False | Some g \<Rightarrow> MiNA g \<and> MiOT g)"


definition synthesis_capable :: "env \<Rightarrow> bool" where
  "synthesis_capable e =
     (case ttsService e of
        None \<Rightarrow> False
      | Some svc \<Rightarrow> canSynthesize (toLowerCase e) svc = Inr True)"

text \<open>\<open>n\<close> rounds of polling: a status call and a sleep of the configured interval.\<close>

definition poll_calls :: "env \<Rightarrow> nat \<Rightarrow> call list" where
  "poll_calls e n = concat (replicate n [GetPlayingStatus, Sleep (pollIntervalMs (story e))])"

text \<open>Environments with failures: a provider whose synthesis always fails, one whose
  synthesis fails from the second call on, a device whose every play fails, a device
  that never stops playing, and an engine that is not there.\<close>

definition failing_synth :: synth_fn where
  "failing_synth tr text = Inl (External (js ''tts''))"

definition second_synth_fails :: synth_fn where
  "second_synth_fails tr text =
     (if list_ex (\<lambda>c. case c of Synthesize _ \<Rightarrow> True | _ \<Rightarrow> False) tr
      then Inl (External (js ''tts'')) else Inr (js ''u''))"

definition tts_env :: "synth_fn \<Rightarrow> env" where
  "tts_env f = (ok_env (js ''doubao''))\<lparr>ttsService := builtin_tts (js ''doubao'') f\<rparr>"

definition offline_env :: env where
  "offline_env =
     (tts_env failing_synth)\<lparr>play_outcome := (\<lambda>_ _. Some (External (js ''offline'')))\<rparr>"

definition playing_env :: env where
  "playing_env = (tts_env ok_synth)\<lparr>status_outcome := (\<lambda>_. Inr True)\<rparr>"

definition no_engine_env :: env where
  "no_engine_env = (ok_env (js ''xiaomi''))\<lparr>engine := None\<rparr>"


text \<open>The state after the optional \<open>abortXiaoAI\<close> that opens a task.\<close>

definition after_interrupt :: "env \<Rightarrow> bool \<Rightarrow> state \<Rightarrow> state" where
  "after_interrupt e interrupt s = (if interrupt then perform e AbortXiaoAI s else s)"

text \<open>A request that went through the queue and was rejected there: one more entry
  in the chain, rejected, and the queue status records the task and its error.\<close>

definition rejected_in_queue :: "jsstring \<Rightarrow> error \<Rightarrow> server \<Rightarrow> server \<Rightarrow> bool" where
  "rejected_in_queue ty err q q' \<longleftrightarrow>
     length (chain q') = Suc (length (chain q)) \<and>
     etype (last (chain q')) = ty \<and>
     estate (last (chain q')) = Rejected err \<and>
     lastTaskType (st q') = Some ty \<and>
     lastTaskError (st q') = Some \<lparr>err_type = ty, err_message = err, err_at = now (st q')\<rparr>"

definition hi_body :: speak_body where
  "hi_body = \<lparr>b_text = js ''hi'', b_interrupt = Some False, b_storyMode = None\<rparr>"

definition story_body :: speak_body where
  "story_body = \<lparr>b_text = example_story, b_interrupt = None, b_storyMode = Some True\<rparr>"

text \<open>The rest of \<open>speakStoryMode\<close>: the loop from chunk \<open>i\<close> on, then \<open>return 'story'\<close>.\<close>

definition story_from :: "env \<Rightarrow> nat \<Rightarrow> jsstring list \<Rightarrow> jsstring action" where
  "story_from e i chunks = await (story_loop e i chunks) (\<lambda>_. ret (js ''story''))"

text \<open>The two chunks of the example text under the limits 5 and 10, and the states
  after the abort that opens the task, after the first chunk has been synthesized and
  played, and after the second has been synthesized.\<close>

definition after_abort :: state where
  "after_abort = state0\<lparr>calls := [AbortXiaoAI]\<rparr>"

definition chunk_one :: jsstring where
  "chunk_one = [0x7B2C, 0x4E00, 0x53E5, 0x3002]"

definition chunk_two :: jsstring where
  "chunk_two = [0x7B2C, 0x4E8C, 0x53E5, 0x3002, 0x7B2C, 0x4E09, 0x53E5, 0x3002]"

definition after_chunk_one :: state where
  "after_chunk_one =
     state0\<lparr>calls := [AbortXiaoAI, Synthesize chunk_one, PlayUrl (js ''u'') False]\<rparr>"

definition after_synth_two :: state where
  "after_synth_two =
     state0\<lparr>calls := [AbortXiaoAI, Synthesize chunk_one, PlayUrl (js ''u'') False,
                      Synthesize chunk_two]\<rparr>"

text \<open>How a wait for the end of playback that started in state \<open>s\<close> at time \<open>t0\<close> went,
  given its result \<open>r\<close>, in terms of \<open>n\<close> rounds of polling that saw the device playing:
  it returned after one more status call that saw it not playing; or the time was up
  after the \<open>n\<close> rounds; or one more status call failed.\<close>

definition wait_outcome ::
  "env \<Rightarrow> nat \<Rightarrow> state \<Rightarrow> (error + unit) \<times> state \<Rightarrow> nat \<Rightarrow> bool" where
  "wait_outcome e t0 s r n \<longleftrightarrow>
     (\<forall>j<n. status_outcome e (calls s @ poll_calls e j) = Inr True) \<and>
     (case fst r of
        Inr _ \<Rightarrow> calls (snd r) = calls s @ poll_calls e n @ [GetPlayingStatus]
                 \<and> status_outcome e (calls s @ poll_calls e n) = Inr False
      | Inl err \<Rightarrow>
          (calls (snd r) = calls s @ poll_calls e n \<and> err = PlaybackWaitTimeout
             \<and> \<not> now (snd r) - t0 < waitTimeoutMs (story e))
          \<or> (calls (snd r) = calls s @ poll_calls e n @ [GetPlayingStatus]
             \<and> status_outcome e (calls s @ poll_calls e n) = Inl err))"

text \<open>A server on which no task is pending.\<close>

definition idle :: "server \<Rightarrow> bool" where
  "idle q = list_all (\<lambda>en. settled (estate en)) (chain q)"

text \<open>Wake-up configurations and utterances for concrete evaluation. The exit phrase
  is U+9000 U+51FA.\<close>

definition exit_wakeup :: wakeupConfig where
  "exit_wakeup = no_wakeup\<lparr>exitAIMode := [[0x9000, 0x51FA]]\<rparr>"

definition exit_env :: env where
  "exit_env = (ok_env (js ''xiaomi''))\<lparr>wakeup := exit_wakeup\<rparr>"

definition active0 :: state where
  "active0 = state0\<lparr>aiConversationMode := True\<rparr>"

text \<open>The same exit phrase with: no engine; a stop keyword, U+9000, that the phrase
  contains; the phrase also configured as an enter phrase; a device on which every play
  fails.\<close>

definition exit_no_engine_env :: env where
  "exit_no_engine_env = exit_env\<lparr>engine := None\<rparr>"

definition exit_stop_env :: env where
  "exit_stop_env = exit_env\<lparr>wakeup := exit_wakeup\<lparr>stopKeywords := [[0x9000]]\<rparr>\<rparr>"

definition exit_enter_env :: env where
  "exit_enter_env = exit_env\<lparr>wakeup := exit_wakeup\<lparr>enterAIMode := [[0x9000, 0x51FA]]\<rparr>\<rparr>"

definition exit_offline_env :: env where
  "exit_offline_env = exit_env\<lparr>play_outcome := (\<lambda>_ _. Some (External (js ''offline'')))\<rparr>"

text \<open>The exit phrase as heard, with a leading space and a closing full stop.\<close>

definition exit_utterance :: jsstring where
  "exit_utterance = [0x20, 0x9000, 0x51FA, 0x3002]"

text \<open>The specification's example: the wake keyword U+8BF7 and the utterance
  U+8BF7 U+544A U+8BC9 U+6211 U+5929 U+6C14, whose intent is the utterance without
  its first character. \<open>wake_env w\<close> is the working device with the wake-up
  configuration \<open>w\<close>.\<close>

definition wake_wakeup :: wakeupConfig where
  "wake_wakeup = no_wakeup\<lparr>wake_keywords := [[0x8BF7]]\<rparr>"

definition wake_env :: "wakeupConfig \<Rightarrow> env" where
  "wake_env w = (ok_env (js ''xiaomi''))\<lparr>wakeup := w\<rparr>"

definition weather_utterance :: jsstring where
  "weather_utterance = [0x8BF7, 0x544A, 0x8BC9, 0x6211, 0x5929, 0x6C14]"

definition weather_intent :: jsstring where
  "weather_intent = [0x544A, 0x8BC9, 0x6211, 0x5929, 0x6C14]"

section \<open>Unfolding for evaluation\<close>

lemmas str_eval = js_def trim_def isWhiteSpace_def asciiLower_def or_else_def
  DEFAULT_PROVIDER_def isSentenceEnd_def

lemmas action_defs = await_def ret_def throw_def try_catch_def

lemmas device_defs = abortXiaoAI_def play_def getPlayingStatus_def askAI_def MiNA_stop_def
  sleep_def perform_def of_outcome_def

lemma timer_clock_simps [simp]:
  "timer_clock tr AbortXiaoAI = 0" "timer_clock tr (PlayText t) = 0"
  "timer_clock tr (PlayUrl u b) = 0" "timer_clock tr (Synthesize t) = 0"
  "timer_clock tr GetPlayingStatus = 0" "timer_clock tr (AskAI t) = 0"
  "timer_clock tr MinaStop = 0" "timer_clock tr (Sleep d) = timer_ms d"
  by (simp_all add: timer_clock_def)

lemmas env_eval = ok_env_def tts_env_def offline_env_def playing_env_def no_engine_env_def
  builtin_tts_def new_TTSService_def registerProvider_def canSynthesize_def getProviderImpl_def
  getProvider_def normalizeProvider_def synthesize_def test_story_def no_wakeup_def
  ok_synth_def failing_synth_def second_synth_fails_def state0_def

lemmas speak_eval = speakByText_def speakByTTS_def speakByXiaomi_def speakStoryMode_def
  story_chunks_def tts_synthesize_def tts_canSynthesize_def ttsProvider_def set_lastSpeak_def
  getEngineOrThrow_def waitForAudioComplete_def as_val_def

lemma trim_Nil: "trim [] = []"
  by (simp add: trim_def)

section \<open>Story chunking\<close>






text \<open>The loop of the code, started anywhere, computes the greedy accumulation.\<close>

lemma foldl_story_step:
  assumes "current = concat cur" "\<forall>s\<in>set cur. s \<noteq> []"
  shows "(let st = foldl (story_step f n) (chunks, current) sents
          in if snd st \<noteq> [] then fst st @ [snd st] else fst st)
       = chunks @ map concat (spec_accumulate f n (chunks = []) cur
            (map (\<lambda>s. trim s @ [0x3002]) (filter (\<lambda>s. trim s \<noteq> []) sents)))"
  using assms
proof (induction sents arbitrary: chunks current cur)
  case Nil
  then show ?case by (cases cur) auto
next
  case (Cons s sents)
  have ne: "current \<noteq> [] \<longleftrightarrow> cur \<noteq> []"
    using Cons.prems by (cases cur) auto
  show ?case
  proof (cases "trim s = []")
    case True
    then have "story_step f n (chunks, current) s = (chunks, current)"
      by (simp add: story_step_def)
    with True Cons.IH[OF Cons.prems] show ?thesis by simp
  next
    case False
    let ?c = "trim s @ [0x3002]"
    show ?thesis
    proof (cases "current \<noteq> [] \<and> length (current @ ?c) > (if chunks = [] then f else n)")
      case flush: True
      then have step: "story_step f n (chunks, current) s = (chunks @ [current], ?c)"
        using False by (simp add: story_step_def Let_def)
      have "(let st = foldl (story_step f n) (chunks @ [current], ?c) sents
          in if snd st \<noteq> [] then fst st @ [snd st] else fst st)
         = (chunks @ [current]) @ map concat (spec_accumulate f n (chunks @ [current] = []) [?c]
            (map (\<lambda>s. trim s @ [0x3002]) (filter (\<lambda>s. trim s \<noteq> []) sents)))"
        by (rule Cons.IH) auto
      with step flush False ne Cons.prems show ?thesis by (simp add: Let_def)
    next
      case keep: False
      then have step: "story_step f n (chunks, current) s = (chunks, current @ ?c)"
        using False by (auto simp add: story_step_def Let_def)
      have "(let st = foldl (story_step f n) (chunks, current @ ?c) sents
          in if snd st \<noteq> [] then fst st @ [snd st] else fst st)
         = chunks @ map concat (spec_accumulate f n (chunks = []) (cur @ [?c])
            (map (\<lambda>s. trim s @ [0x3002]) (filter (\<lambda>s. trim s \<noteq> []) sents)))"
        using Cons.prems by (intro Cons.IH) auto
      with step keep False ne Cons.prems show ?thesis by (auto simp add: Let_def)
    qed
  qed
qed

lemma splitTextForStory_refines:
  "splitTextForStory text f n = map concat (spec_story_groups text f n)"
  using foldl_story_step[of "[]" "[]" f n "[]" "split_on isSentenceEnd text"]
  by (simp add: splitTextForStory_def spec_story_groups_def story_sentences_def Let_def)

lemma example_story_groups:
  "spec_story_groups example_story 5 10 =
     [[[0x7B2C, 0x4E00, 0x53E5, 0x3002]],
      [[0x7B2C, 0x4E8C, 0x53E5, 0x3002], [0x7B2C, 0x4E09, 0x53E5, 0x3002]]]"
  by (simp add: spec_story_groups_def story_sentences_def example_story_def str_eval)



section \<open>Alias resolution\<close>

text \<open>
  C8, as the claim states it, fails on an alias whose target is itself an alias:
  with \<open>a\<close> registered for \<open>b\<close> and then \<open>b\<close> for \<open>c\<close>, resolving \<open>a\<close> gives \<open>b\<close>
  (one hop) and resolving its target \<open>b\<close> gives \<open>c\<close>.
\<close>

theorem normalizeProvider_alias_chain_counterexample:
  "registerAlias asciiLower (js ''a'') (js ''b'') svc_base = Inr svc_ab
   \<and> registerAlias asciiLower (js ''b'') (js ''c'') svc_ab = Inr svc_abc
   \<and> registered asciiLower svc_abc (js ''a'') (js ''b'')
   \<and> normalizeProvider asciiLower svc_abc (js ''a'') = js ''b''
   \<and> normalizeProvider asciiLower svc_abc (js ''b'') = js ''c''
   \<and> normalizeProvider asciiLower svc_abc (js ''a'')
       \<noteq> normalizeProvider asciiLower svc_abc (js ''b'')"
  by (simp add: registerAlias_def normalizeProvider_def registered_def
      svc_base_def svc_ab_def svc_abc_def str_eval Let_def)

text \<open>
  C8, amended. \<open>registerAlias\<close> registers the normalized alias for the normalized
  target. Resolving a registered alias returns its normalized target, following one
  hop only; this is what resolving the target returns whenever the target is not itself
  a registered alias. Resolving a name with no registered alias returns the normalized
  input (trimmed and lower-cased, the default provider standing for an empty name);
  resolution has no failure. The lower-casing of the platform is a parameter and maps
  the empty string to itself.
\<close>

theorem normalizeProvider_one_hop:
  assumes "lc [] = []"
  shows "(registerAlias lc alias target svc = Inr svc' \<longrightarrow> registered lc svc' alias target)
    \<and> (registered lc svc alias target \<longrightarrow>
          normalizeProvider lc svc alias = lc (trim target)
          \<and> (aliases svc (lc (trim target)) = None \<longrightarrow>
               normalizeProvider lc svc alias = normalizeProvider lc svc target))
    \<and> (aliases svc (lc (trim (or_else name DEFAULT_PROVIDER))) = None \<longrightarrow>
          normalizeProvider lc svc name = lc (trim (or_else name DEFAULT_PROVIDER)))"
proof (intro conjI impI)
  assume "registerAlias lc alias target svc = Inr svc'"
  then show "registered lc svc' alias target"
    by (auto simp: registerAlias_def registered_def Let_def split: if_splits)
next
  assume r: "registered lc svc alias target"
  then have a: "alias \<noteq> []" and t: "target \<noteq> []"
    using assms by (auto simp: registered_def trim_Nil)
  from r a show 1: "normalizeProvider lc svc alias = lc (trim target)"
    by (simp add: registered_def normalizeProvider_def or_else_def)
  assume "aliases svc (lc (trim target)) = None"
  with t have "normalizeProvider lc svc target = lc (trim target)"
    by (simp add: normalizeProvider_def or_else_def)
  with 1 show "normalizeProvider lc svc alias = normalizeProvider lc svc target" by simp
next
  assume "aliases svc (lc (trim (or_else name DEFAULT_PROVIDER))) = None"
  then show "normalizeProvider lc svc name = lc (trim (or_else name DEFAULT_PROVIDER))"
    by (simp add: normalizeProvider_def)
qed

theorem normalizeProvider_one_hop_witness:
  "asciiLower [] = []
   \<and> registerAlias asciiLower (js '' DouBao'') (js ''Volcano '') svc_base = Inr svc_base
   \<and> registered asciiLower svc_base (js '' DouBao'') (js ''Volcano '')
   \<and> aliases svc_base (asciiLower (trim (js ''Volcano ''))) = None
   \<and> normalizeProvider asciiLower svc_base (js '' DouBao'') = js ''volcano''
   \<and> normalizeProvider asciiLower svc_base (js '' DouBao'')
       = normalizeProvider asciiLower svc_base (js ''Volcano '')
   \<and> aliases svc_base (asciiLower (trim (or_else (js ''Edge'') DEFAULT_PROVIDER))) = None
   \<and> normalizeProvider asciiLower svc_base (js ''Edge'') = js ''edge''"
proof -
  have lc: "asciiLower [] = []"
    by (simp add: asciiLower_def)
  have reg: "registerAlias asciiLower (js '' DouBao'') (js ''Volcano '') svc_base = Inr svc_base"
    by (simp add: registerAlias_def svc_base_def str_eval Let_def)
  have no: "aliases svc_base (asciiLower (trim (js ''Volcano ''))) = None"
    by (simp add: svc_base_def str_eval)
  have no': "aliases svc_base (asciiLower (trim (or_else (js ''Edge'') DEFAULT_PROVIDER))) = None"
    by (simp add: svc_base_def str_eval)
  have t: "asciiLower (trim (js ''Volcano '')) = js ''volcano''"
    and t': "asciiLower (trim (or_else (js ''Edge'') DEFAULT_PROVIDER)) = js ''edge''"
    by (simp_all add: str_eval)
  from normalizeProvider_one_hop[of asciiLower "js '' DouBao''" "js ''Volcano ''"
      svc_base svc_base "js ''Edge''"] reg no no' t t' lc
  show ?thesis by auto
qed

section \<open>The task queue\<close>

lemma exec_append: "exec (xs @ ys) q = exec ys (exec xs q)"
  by (simp add: exec_def)

lemma exec_Nil: "exec [] q = q"
  by (simp add: exec_def)

lemma exec_Cons: "exec (ev # evs) q = exec evs (step ev q)"
  by (simp add: exec_def)

lemma serial_log_start: "serial_log m True = serial_log m False @ [Started m]"
  by (simp add: serial_log_def)

lemma serial_log_finish: "serial_log (Suc m) False = serial_log m True @ [Finished m]"
  by (simp add: serial_log_def)

lemma settled_simps [simp]:
  "\<not> settled Waiting" "\<not> settled Running" "settled (Fulfilled v)" "settled (Rejected err)"
  by (simp_all add: settled_def)

lemma settled_settle [simp]: "settled (settle r)"
  by (cases r) (simp_all add: settle_def)

lemma chain_shape_new: "chain_shape (new_server s) 0 False"
  by (simp add: chain_shape_def new_server_def serial_log_def)

lemma chain_shape_submit:
  assumes "chain_shape q m r"
  shows "chain_shape (enqueueTask task ty q) m r"
  using assms
  by (auto simp: chain_shape_def enqueueTask_def Let_def nth_append)

text \<open>Only the first entry that is not settled can start, and only when none runs.\<close>

lemma chain_shape_can_start:
  assumes "chain_shape q m r" "can_start q k"
  shows "k = m \<and> \<not> r"
proof -
  from assms have k: "k < length (chain q)" and w: "estate (chain q ! k) = Waiting"
    and p: "k = 0 \<or> settled (estate (chain q ! (k - 1)))"
    by (auto simp: can_start_def)
  have "\<not> k < m"
    using assms(1) w by (auto simp: chain_shape_def)
  moreover have "\<not> m < k"
  proof
    assume mk: "m < k"
    then have "k - 1 < length (chain q)" "m \<le> k - 1" using k by auto
    moreover from mk p have "settled (estate (chain q ! (k - 1)))" by auto
    ultimately show False
      using assms(1) by (cases "r \<and> k - 1 = m") (auto simp: chain_shape_def)
  qed
  ultimately have "k = m" by simp
  with assms(1) w show ?thesis by (auto simp: chain_shape_def)
qed

lemma chain_shape_can_finish:
  assumes "chain_shape q m r" "can_finish q k"
  shows "k = m \<and> r"
proof -
  from assms have k: "k < length (chain q)" and w: "estate (chain q ! k) = Running"
    by (auto simp: can_finish_def)
  have "\<not> k < m"
    using assms(1) w by (auto simp: chain_shape_def)
  moreover have "\<not> (m + (if r then 1 else 0) \<le> k)"
    using assms(1) w k by (auto simp: chain_shape_def)
  ultimately show ?thesis by (auto split: if_splits)
qed

lemma chain_shape_start:
  assumes "chain_shape q m r" "can_start q k"
  shows "chain_shape (step (Start k) q) m True"
proof -
  from chain_shape_can_start[OF assms] have km: "k = m" and r: "\<not> r" by auto
  from assms(2) have "m < length (chain q)" by (simp add: can_start_def km)
  with assms show ?thesis
    by (auto simp: chain_shape_def km r serial_log_start nth_list_update)
qed

lemma chain_shape_finish:
  assumes "chain_shape q m r" "can_finish q k"
  shows "chain_shape (step (Finish k) q) (Suc m) False"
proof -
  from chain_shape_can_finish[OF assms] have km: "k = m" and r: "r" by auto
  from assms(2) have "m < length (chain q)" by (simp add: can_finish_def km)
  with assms show ?thesis
    by (auto simp: chain_shape_def km r serial_log_finish nth_list_update Let_def less_Suc_eq)
qed

lemma chain_shape_step:
  assumes "chain_shape q m r"
  shows "\<exists>m' r'. chain_shape (step ev q) m' r'"
proof (cases ev)
  case (Submit task ty)
  with chain_shape_submit[OF assms] show ?thesis by auto
next
  case (Start k)
  show ?thesis
  proof (cases "can_start q k")
    case True
    from chain_shape_start[OF assms True] Start show ?thesis by blast
  next
    case False
    with Start assms show ?thesis by auto
  qed
next
  case (Finish k)
  show ?thesis
  proof (cases "can_finish q k")
    case True
    from chain_shape_finish[OF assms True] Finish show ?thesis by blast
  next
    case False
    with Finish assms show ?thesis by auto
  qed
qed

lemma chain_shape_exec:
  assumes "chain_shape q m r"
  shows "\<exists>m' r'. chain_shape (exec evs q) m' r'"
  using assms
proof (induction evs arbitrary: q m r)
  case Nil
  then show ?case by (auto simp: exec_Nil)
next
  case (Cons ev evs)
  from chain_shape_step[OF Cons.prems] obtain m' r' where "chain_shape (step ev q) m' r'"
    by blast
  from Cons.IH[OF this] show ?case by (simp add: exec_Cons)
qed

lemma chain_shape_settled_count:
  assumes "chain_shape q m r"
  shows "settled_count q = m"
proof -
  have "takeWhile (\<lambda>en. settled (estate en)) (chain q) = take m (chain q)"
  proof (rule takeWhile_eq_take_P_nth)
    fix i assume "i < m" "i < length (chain q)"
    with assms show "settled (estate (chain q ! i))" by (auto simp: chain_shape_def)
  next
    assume "m < length (chain q)"
    with assms show "\<not> settled (estate (chain q ! m))"
      by (cases r) (auto simp: chain_shape_def)
  qed
  moreover from assms have "m \<le> length (chain q)"
    by (auto simp: chain_shape_def split: if_splits)
  ultimately show ?thesis by (simp add: settled_count_def)
qed

lemma chain_shape_is_running:
  assumes "chain_shape q m r"
  shows "is_running q = r"
proof (cases r)
  case True
  with assms have "m < length (chain q)" "estate (chain q ! m) = Running"
    by (auto simp: chain_shape_def)
  then have "\<exists>en\<in>set (chain q). estate en = Running"
    using nth_mem by blast
  with True show ?thesis by (simp add: is_running_def list_ex_iff)
next
  case False
  have "estate en \<noteq> Running" if "en \<in> set (chain q)" for en
  proof -
    from that obtain k where k: "k < length (chain q)" "en = chain q ! k"
      by (auto simp: in_set_conv_nth)
    show ?thesis
    proof (cases "k < m")
      case True
      with assms have "settled (estate (chain q ! k))" by (auto simp: chain_shape_def)
      with k show ?thesis by auto
    next
      case nk: False
      with assms False k have "estate (chain q ! k) = Waiting" by (auto simp: chain_shape_def)
      with k show ?thesis by simp
    qed
  qed
  with False show ?thesis by (auto simp: is_running_def list_ex_iff)
qed

lemma step_Start_length [simp]: "length (chain (step (Start k) q)) = length (chain q)"
  by simp

lemma step_Finish_length [simp]: "length (chain (step (Finish k) q)) = length (chain q)"
  by (simp add: Let_def)

lemma step_Start_tasks [simp]:
  "map entry_task (chain (step (Start k) q)) = map entry_task (chain q)"
  by (auto simp: entry_task_def map_update can_start_def list_eq_iff_nth_eq nth_list_update)

lemma step_Finish_tasks [simp]:
  "map entry_task (chain (step (Finish k) q)) = map entry_task (chain q)"
  by (auto simp: entry_task_def Let_def can_finish_def list_eq_iff_nth_eq nth_list_update)

lemma step_Start_other:
  "j \<noteq> k \<Longrightarrow> chain (step (Start k) q) ! j = chain q ! j"
  by simp

lemma step_Finish_other:
  "j \<noteq> k \<Longrightarrow> chain (step (Finish k) q) ! j = chain q ! j"
  by (simp add: Let_def)

lemma step_Start_st [simp]: "st (step (Start k) q) = st q"
  by simp

declare step.simps [simp del]

text \<open>Once its predecessor has settled, fulfilled or rejected, an entry that is started
  and finished is settled.\<close>

lemma run_entry_settled:
  assumes "k < length (chain q)" "k = 0 \<or> settled (estate (chain q ! (k - 1)))"
  shows "settled (estate (chain (step (Finish k) (step (Start k) q)) ! k))"
proof (cases "estate (chain q ! k)")
  case Waiting
  with assms have "can_start q k" by (simp add: can_start_def)
  with assms show ?thesis by (simp add: can_finish_def Let_def step.simps)
next
  case Running
  with assms show ?thesis by (simp add: can_start_def can_finish_def Let_def step.simps)
next
  case (Fulfilled v)
  with assms show ?thesis by (simp add: can_start_def can_finish_def step.simps)
next
  case (Rejected err)
  with assms show ?thesis by (simp add: can_start_def can_finish_def step.simps)
qed

lemma drain_events_Suc: "drain_events (Suc m) = drain_events m @ [Start m, Finish m]"
  by (simp add: drain_events_def)

lemma exec_drain_prefix:
  assumes "m \<le> length (chain q)"
  shows "length (chain (exec (drain_events m) q)) = length (chain q)
       \<and> (\<forall>k<m. settled (estate (chain (exec (drain_events m) q) ! k)))
       \<and> (\<forall>k. m \<le> k \<longrightarrow> chain (exec (drain_events m) q) ! k = chain q ! k)"
  using assms
proof (induction m)
  case 0
  then show ?case by (simp add: drain_events_def exec_Nil)
next
  case (Suc m)
  let ?q = "exec (drain_events m) q"
  let ?q' = "step (Finish m) (step (Start m) ?q)"
  from Suc have ih: "length (chain ?q) = length (chain q)"
    "\<forall>k<m. settled (estate (chain ?q ! k))"
    "\<forall>k. m \<le> k \<longrightarrow> chain ?q ! k = chain q ! k"
    by auto
  have eq: "exec (drain_events (Suc m)) q = ?q'"
    by (simp add: drain_events_Suc exec_append exec_Cons exec_Nil)
  have m: "m < length (chain ?q)" using Suc.prems ih by simp
  have pred: "m = 0 \<or> settled (estate (chain ?q ! (m - 1)))"
    using ih(2) by (cases m) auto
  have 1: "length (chain ?q') = length (chain q)" using ih by simp
  have 2: "settled (estate (chain ?q' ! k))" if "k < Suc m" for k
  proof (cases "k = m")
    case True
    with run_entry_settled[OF m pred] show ?thesis by simp
  next
    case False
    with that have "k < m" by simp
    with ih(2) False show ?thesis by (simp add: step_Start_other step_Finish_other)
  qed
  have 3: "chain ?q' ! k = chain q ! k" if "Suc m \<le> k" for k
    using that ih(3) by (simp add: step_Start_other step_Finish_other)
  from 1 2 3 show ?case unfolding eq by blast
qed

lemma exec_drain_tasks:
  "map entry_task (chain (exec (drain_events m) q)) = map entry_task (chain q)"
  by (induction m) (simp_all add: drain_events_def exec_Nil exec_append exec_Cons)

lemma drain_settled:
  "length (chain (drain q)) = length (chain q)
   \<and> (\<forall>k<length (chain q). settled (estate (chain (drain q) ! k)))"
  using exec_drain_prefix[of "length (chain q)" q] by (simp add: drain_def)

lemma chain_shape_all_settled:
  assumes "chain_shape q m r" "\<forall>k<length (chain q). settled (estate (chain q ! k))"
  shows "m = length (chain q) \<and> \<not> r"
proof -
  have "\<not> m < length (chain q)"
  proof
    assume "m < length (chain q)"
    with assms show False by (cases r) (auto simp: chain_shape_def)
  qed
  with assms(1) show ?thesis by (auto simp: chain_shape_def split: if_splits)
qed

lemma drain_log:
  assumes "chain_shape q m r"
  shows "log (drain q) = serial_log (length (chain q)) False"
proof -
  from chain_shape_exec[OF assms, of "drain_events (length (chain q))"]
  obtain m' r' where s: "chain_shape (drain q) m' r'"
    unfolding drain_def by blast
  from drain_settled[of q]
  have "\<forall>k<length (chain (drain q)). settled (estate (chain (drain q) ! k))"
    by simp
  from chain_shape_all_settled[OF s this] drain_settled[of q] s show ?thesis
    by (simp add: chain_shape_def)
qed

lemma exec_tasks:
  "map entry_task (chain (exec evs q))
     = map entry_task (chain q) @ map (\<lambda>(ty, task). (ty, wrappedTask task ty)) (submissions evs)"
proof (induction evs arbitrary: q)
  case Nil
  then show ?case by (simp add: exec_Nil submissions_def)
next
  case (Cons ev evs)
  show ?case
  proof (cases ev)
    case (Submit task ty)
    then show ?thesis
      using Cons.IH[of "step ev q"]
      by (simp add: exec_Cons submissions_def enqueueTask_def Let_def entry_task_def step.simps)
  next
    case (Start k)
    then show ?thesis
      using Cons.IH[of "step ev q"] step_Start_tasks[of k q]
      by (simp add: exec_Cons submissions_def)
  next
    case (Finish k)
    then show ?thesis
      using Cons.IH[of "step ev q"] step_Finish_tasks[of k q]
      by (simp add: exec_Cons submissions_def)
  qed
qed

lemma exec_drain_idle:
  assumes "\<forall>k<m. settled (estate (chain q ! k))" "m \<le> length (chain q)"
  shows "exec (drain_events m) q = q"
  using assms
proof (induction m)
  case 0
  then show ?case by (simp add: drain_events_def exec_Nil)
next
  case (Suc m)
  then have "exec (drain_events m) q = q" by simp
  moreover from Suc.prems have "settled (estate (chain q ! m))" by simp
  then have "\<not> can_start q m" "\<not> can_finish q m"
    by (auto simp: can_start_def can_finish_def)
  ultimately show ?case
    by (simp add: drain_events_Suc exec_append exec_Cons exec_Nil step.simps)
qed

lemma wrappedTask_status:
  "wrappedTask task ty s = (fst (task s), status_after ty (fst (task s)) (snd (task s)))"
  by (cases "task s")
     (auto simp: wrappedTask_def task_finally_def status_after_def split: sum.splits)

lemma run_in_order_snoc:
  "run_in_order (ts @ [(ty, task)]) s =
     (case run_in_order ts s of
        (ps, s1) \<Rightarrow> (case task s1 of (r, s2) \<Rightarrow> (ps @ [settle r], status_after ty r s2)))"
  by (induction ts s rule: run_in_order.induct) (auto split: prod.splits)

lemma length_run_in_order [simp]: "length (fst (run_in_order ts s)) = length ts"
  by (induction ts s rule: run_in_order.induct) (auto split: prod.splits)

lemma run_entry:
  assumes "chain_shape q n r" "n < length (chain q)"
  shows "st (step (Finish n) (step (Start n) q)) = snd (ebody (chain q ! n) (st q))
       \<and> chain (step (Finish n) (step (Start n) q))
          = (chain q)[n := (chain q ! n)\<lparr>estate := settle (fst (ebody (chain q ! n) (st q)))\<rparr>]
       \<and> chain_shape (step (Finish n) (step (Start n) q)) (Suc n) False"
proof (cases r)
  case True
  with assms have run: "estate (chain q ! n) = Running" by (auto simp: chain_shape_def)
  then have ns: "\<not> can_start q n" by (simp add: can_start_def)
  from run assms(2) have cf: "can_finish q n" by (simp add: can_finish_def)
  from ns have eq: "step (Start n) q = q" by (simp add: step.simps)
  from cf have 1: "st (step (Finish n) q) = snd (ebody (chain q ! n) (st q))"
    by (simp add: step.simps Let_def)
  from cf have 2: "chain (step (Finish n) q)
          = (chain q)[n := (chain q ! n)\<lparr>estate := settle (fst (ebody (chain q ! n) (st q)))\<rparr>]"
    by (simp add: step.simps Let_def)
  from chain_shape_finish[OF assms(1) cf] 1 2 show ?thesis
    unfolding eq by simp
next
  case False
  with assms have w: "estate (chain q ! n) = Waiting" by (auto simp: chain_shape_def)
  from assms(1) have "n = 0 \<or> settled (estate (chain q ! (n - 1)))"
    by (cases n) (auto simp: chain_shape_def)
  with w assms(2) have cs: "can_start q n" by (simp add: can_start_def)
  let ?q1 = "step (Start n) q"
  from cs have q1: "?q1 = q\<lparr>chain := (chain q)[n := (chain q ! n)\<lparr>estate := Running\<rparr>],
             log := log q @ [Started n]\<rparr>"
    by (simp add: step.simps)
  from assms(2) have cf: "can_finish ?q1 n" by (simp add: q1 can_finish_def)
  from cf have "st (step (Finish n) ?q1) = snd (ebody (chain ?q1 ! n) (st ?q1))"
    by (simp add: step.simps Let_def)
  with assms(2) have 1: "st (step (Finish n) ?q1) = snd (ebody (chain q ! n) (st q))"
    by (simp add: q1)
  from cf have "chain (step (Finish n) ?q1)
      = (chain ?q1)[n := (chain ?q1 ! n)\<lparr>estate := settle (fst (ebody (chain ?q1 ! n) (st ?q1)))\<rparr>]"
    by (simp add: step.simps Let_def)
  with assms(2) have 2: "chain (step (Finish n) ?q1)
          = (chain q)[n := (chain q ! n)\<lparr>estate := settle (fst (ebody (chain q ! n) (st q)))\<rparr>]"
    by (simp add: q1)
  from chain_shape_finish[OF chain_shape_start[OF assms(1) cs] cf] 1 2
  show ?thesis by simp
qed

lemma list_update_middle:
  assumes "length xs = m" "length ys = k" "n = m + k" "n < length es"
  shows "(xs @ ys @ drop n es)[n := p] = xs @ (ys @ [p]) @ drop (Suc n) es"
proof -
  from assms(4) have "drop n es = es ! n # drop (Suc n) es"
    by (simp add: Cons_nth_drop_Suc)
  with assms show ?thesis by (simp add: list_update_append)
qed

lemma exec_drain_run:
  assumes sh: "chain_shape q m r"
    and ts: "map entry_task (chain q) = map (\<lambda>(ty, task). (ty, wrappedTask task ty)) tasks"
    and k: "m + k \<le> length (chain q)"
  shows "chain_shape (exec (drain_events (m + k)) q) (m + k) (k = 0 \<and> r)
       \<and> st (exec (drain_events (m + k)) q) = snd (run_in_order (take k (drop m tasks)) (st q))
       \<and> map estate (chain (exec (drain_events (m + k)) q))
           = take m (map estate (chain q)) @ fst (run_in_order (take k (drop m tasks)) (st q))
             @ drop (m + k) (map estate (chain q))
       \<and> map entry_task (chain (exec (drain_events (m + k)) q)) = map entry_task (chain q)"
  using k
proof (induction k)
  case 0
  from sh have "\<forall>j<m. settled (estate (chain q ! j))" "m \<le> length (chain q)"
    by (auto simp: chain_shape_def)
  then have "exec (drain_events m) q = q" by (rule exec_drain_idle)
  with sh show ?case by simp
next
  case (Suc k)
  let ?n = "m + k"
  let ?q = "exec (drain_events ?n) q"
  let ?ts = "take k (drop m tasks)"
  let ?es = "map estate (chain q)"
  from Suc have n: "?n < length (chain q)" by simp
  from Suc have shq: "chain_shape ?q ?n (k = 0 \<and> r)"
    and stq: "st ?q = snd (run_in_order ?ts (st q))"
    and esq: "map estate (chain ?q) = take m ?es @ fst (run_in_order ?ts (st q)) @ drop ?n ?es"
    and etq: "map entry_task (chain ?q) = map entry_task (chain q)"
    by simp_all
  from arg_cong[OF etq, of length] have len: "length (chain ?q) = length (chain q)"
    by simp
  from arg_cong[OF ts, of length] have lent: "length tasks = length (chain q)"
    by simp
  obtain ty task where tk: "tasks ! ?n = (ty, task)" by (cases "tasks ! ?n")
  from etq ts have "map entry_task (chain ?q) ! ?n
      = map (\<lambda>(ty, task). (ty, wrappedTask task ty)) tasks ! ?n" by simp
  with n len lent tk have body: "ebody (chain ?q ! ?n) = wrappedTask task ty"
    by (simp add: entry_task_def)
  have eq: "exec (drain_events (Suc (m + k))) q = step (Finish ?n) (step (Start ?n) ?q)"
    by (simp add: drain_events_Suc exec_append exec_Cons exec_Nil)
  from n len have n': "?n < length (chain ?q)" by simp
  note re = run_entry[OF shq n']
  from n lent have "k < length (drop m tasks)" by simp
  then have "take (Suc k) (drop m tasks) = ?ts @ [drop m tasks ! k]"
    by (rule take_Suc_conv_app_nth)
  moreover from n lent have "drop m tasks ! k = tasks ! ?n" by simp
  ultimately have tk2: "take (Suc k) (drop m tasks) = ?ts @ [(ty, task)]"
    using tk by simp
  obtain ps s1 where run: "run_in_order ?ts (st q) = (ps, s1)" by (cases "run_in_order ?ts (st q)")
  obtain res s2 where tsk: "task s1 = (res, s2)" by (cases "task s1")
  from run have lps: "length ps = k"
    using length_run_in_order[of ?ts "st q"] n lent by simp
  have 1: "chain_shape (exec (drain_events (m + Suc k)) q) (m + Suc k) (Suc k = 0 \<and> r)"
    using re by (simp add: eq)
  have 2: "st (exec (drain_events (m + Suc k)) q)
      = snd (run_in_order (take (Suc k) (drop m tasks)) (st q))"
    using re by (simp add: eq body wrappedTask_status stq run tsk tk2 run_in_order_snoc)
  have "map estate (chain (exec (drain_events (m + Suc k)) q))
      = (map estate (chain ?q))[?n := settle res]"
    using re by (simp add: eq body wrappedTask_status stq run tsk map_update)
  also have "\<dots> = (take m ?es @ ps @ drop ?n ?es)[?n := settle res]"
    by (simp add: esq run)
  also have "\<dots> = take m ?es @ (ps @ [settle res]) @ drop (Suc ?n) ?es"
    using n lps by (intro list_update_middle) simp_all
  finally have 3: "map estate (chain (exec (drain_events (m + Suc k)) q))
      = take m ?es @ fst (run_in_order (take (Suc k) (drop m tasks)) (st q))
        @ drop (m + Suc k) ?es"
    by (simp add: tk2 run_in_order_snoc run tsk)
  have 4: "map entry_task (chain (exec (drain_events (m + Suc k)) q)) = map entry_task (chain q)"
    by (simp add: eq etq)
  from 1 2 3 4 show ?case by blast
qed

lemma drain_run:
  assumes sh: "chain_shape q m r"
    and ts: "map entry_task (chain q) = map (\<lambda>(ty, task). (ty, wrappedTask task ty)) tasks"
  shows "st (drain q) = snd (run_in_order (drop m tasks) (st q))"
    and "map estate (chain (drain q))
           = take m (map estate (chain q)) @ fst (run_in_order (drop m tasks) (st q))"
proof -
  from sh have m: "m \<le> length (chain q)" by (auto simp: chain_shape_def)
  from arg_cong[OF ts, of length] have lent: "length tasks = length (chain q)" by simp
  from m have k: "m + (length (chain q) - m) \<le> length (chain q)" by simp
  from m lent have t: "take (length (chain q) - m) (drop m tasks) = drop m tasks" by simp
  from exec_drain_run[OF sh ts k] m
  show "st (drain q) = snd (run_in_order (drop m tasks) (st q))"
    and "map estate (chain (drain q))
           = take m (map estate (chain q)) @ fst (run_in_order (drop m tasks) (st q))"
    by (simp_all add: drain_def t)
qed

lemma chain_shape_can_start_iff:
  assumes "chain_shape q m r"
  shows "can_start q k \<longleftrightarrow> k = m \<and> \<not> r \<and> k < length (chain q)"
proof
  assume c: "can_start q k"
  from chain_shape_can_start[OF assms c] c show "k = m \<and> \<not> r \<and> k < length (chain q)"
    by (simp add: can_start_def)
next
  assume a: "k = m \<and> \<not> r \<and> k < length (chain q)"
  with assms have "estate (chain q ! m) = Waiting" by (auto simp: chain_shape_def)
  moreover from assms have "m = 0 \<or> settled (estate (chain q ! (m - 1)))"
    by (cases m) (auto simp: chain_shape_def)
  ultimately show "can_start q k" using a by (simp add: can_start_def)
qed

lemma chain_shape_can_finish_iff:
  assumes "chain_shape q m r"
  shows "can_finish q k \<longleftrightarrow> k = m \<and> r"
proof
  assume c: "can_finish q k"
  from chain_shape_can_finish[OF assms c] show "k = m \<and> r" .
next
  assume "k = m \<and> r"
  with assms show "can_finish q k" by (auto simp: chain_shape_def can_finish_def)
qed

lemmas queue_eval = exec_def step.simps enqueueTask_def can_start_def can_finish_def
  wrappedTask_def task_finally_def settle_def new_server_def drain_def drain_events_def
  throw_def ret_def Let_def

lemma ok_env_sel:
  "abort_outcome (ok_env p) = (\<lambda>_. None)"
  "play_outcome (ok_env p) = (\<lambda>_ _. None)"
  "call_ms (ok_env p) = timer_clock"
  by (simp_all add: ok_env_def)

lemma failing_task_eq:
  "failing_task s = (Inl (External (js ''boom'')), s\<lparr>calls := calls s @ [AbortXiaoAI]\<rparr>)"
  by (simp add: failing_task_def await_def throw_def abortXiaoAI_def of_outcome_def perform_def
      ok_env_sel)

lemma speaking_task_eq:
  "speaking_task s =
     (Inr (Str (js ''xiaomi'')),
      s\<lparr>calls := calls s @ [PlayText (js ''hi'')], lastSpeakMode := Some (js ''xiaomi''),
        lastSpeakAt := Some (now s)\<rparr>)"
  by (simp add: speaking_task_def as_val_def speakByXiaomi_def set_lastSpeak_def await_def ret_def
      play_def of_outcome_def perform_def ok_env_sel)

lemma exec_submit_all:
  "exec (submit_all tasks) q =
     q\<lparr>st := (st q)\<lparr>queueDepth := queueDepth (st q) + int (length tasks)\<rparr>,
       chain := chain q @ map (\<lambda>(ty, task). \<lparr>etype = or_else ty (js ''task''),
                  ebody = wrappedTask task (or_else ty (js ''task'')), estate = Waiting\<rparr>) tasks\<rparr>"
proof (induction tasks arbitrary: q)
  case Nil
  then show ?case by (simp add: submit_all_def exec_Nil)
next
  case (Cons a tasks)
  obtain ty task where a: "a = (ty, task)" by (cases a)
  have "exec (submit_all (a # tasks)) q = exec (submit_all tasks) (enqueueTask task ty q)"
    by (simp add: submit_all_def exec_Cons a step.simps)
  then show ?case
    by (simp add: Cons.IH enqueueTask_def Let_def a)
qed

lemma submissions_submit_all:
  "submissions (submit_all tasks) = map (\<lambda>(ty, task). (or_else ty (js ''task''), task)) tasks"
  by (induction tasks) (auto simp: submit_all_def submissions_def)

lemma settled_count_submit_all:
  "settled_count (exec (submit_all tasks) (new_server s)) = 0"
  by (cases tasks) (auto simp: exec_submit_all settled_count_def new_server_def)


text \<open>
  C1. Whatever the callers and the runtime do (any sequence of submissions, starts and
  finishes, from a new server), the entries of the chain are the submitted tasks in
  submission order; the first \<open>m\<close> of them are settled, entry \<open>m\<close> may be running and
  the later ones wait, and the log is that of a serial run. The wrapped task of an
  entry can start exactly when it is entry \<open>m\<close> and nothing runs, whether the entries
  before it were fulfilled or rejected, and only the running entry \<open>m\<close> can finish.
  When it finishes, the body of the submitted task has run on the state of the server:
  the state is the one the body left, with the queue status brought up to date, and
  the entry is settled to the body's outcome. When the runtime is then left to run,
  the state and the outcomes are those of running the bodies of the remaining tasks
  one after the other in submission order, each on the state its predecessor left,
  whatever the outcome of that one; every promise of the chain, the tail included, is
  settled. In particular, when tasks are submitted one after the other and the runtime
  is then left to run, the final state and the outcomes are those of running their
  bodies in submission order.
\<close>

theorem enqueueTask_serial:
  assumes "q = exec evs (new_server s)" and "m = settled_count q"
  shows "chain_shape q m (is_running q)
   \<and> map entry_task (chain q)
       = map (\<lambda>(ty, task). (ty, wrappedTask task ty)) (submissions evs)
   \<and> (\<forall>k. can_start q k \<longleftrightarrow> k = m \<and> \<not> is_running q \<and> k < length (chain q))
   \<and> (\<forall>k. can_finish q k \<longleftrightarrow> k = m \<and> is_running q)
   \<and> (is_running q \<longrightarrow>
        st (step (Finish m) q)
          = status_after (fst (submissions evs ! m))
              (fst (snd (submissions evs ! m) (st q))) (snd (snd (submissions evs ! m) (st q)))
        \<and> estate (chain (step (Finish m) q) ! m)
          = settle (fst (snd (submissions evs ! m) (st q))))
   \<and> st (drain q) = snd (run_in_order (drop m (submissions evs)) (st q))
   \<and> map estate (chain (drain q))
       = take m (map estate (chain q)) @ fst (run_in_order (drop m (submissions evs)) (st q))
   \<and> (\<forall>en \<in> set (chain (drain q)). settled (estate en))
   \<and> map entry_task (chain (drain q)) = map entry_task (chain q)
   \<and> log (drain q) = serial_log (length (submissions evs)) False
   \<and> st (drain (exec (submit_all tasks) (new_server s)))
       = snd (run_in_order (submissions (submit_all tasks))
               (s\<lparr>queueDepth := queueDepth s + int (length tasks)\<rparr>))
   \<and> map estate (chain (drain (exec (submit_all tasks) (new_server s))))
       = fst (run_in_order (submissions (submit_all tasks))
               (s\<lparr>queueDepth := queueDepth s + int (length tasks)\<rparr>))"
proof -
  from chain_shape_exec[OF chain_shape_new, of evs s] assms(1)
  obtain m' r where sh': "chain_shape q m' r" by blast
  from chain_shape_settled_count[OF sh'] chain_shape_is_running[OF sh'] sh' assms(2)
  have sh: "chain_shape q m (is_running q)" by simp
  have ts: "map entry_task (chain q)
       = map (\<lambda>(ty, task). (ty, wrappedTask task ty)) (submissions evs)"
    using exec_tasks[of evs "new_server s"] by (simp add: new_server_def assms(1))
  from arg_cong[OF ts, of length] have len: "length (chain q) = length (submissions evs)"
    by simp
  have 3: "\<forall>k. can_start q k \<longleftrightarrow> k = m \<and> \<not> is_running q \<and> k < length (chain q)"
    using chain_shape_can_start_iff[OF sh] by blast
  have 4: "\<forall>k. can_finish q k \<longleftrightarrow> k = m \<and> is_running q"
    using chain_shape_can_finish_iff[OF sh] by blast
  have 5: "st (step (Finish m) q)
          = status_after (fst (submissions evs ! m))
              (fst (snd (submissions evs ! m) (st q))) (snd (snd (submissions evs ! m) (st q)))
        \<and> estate (chain (step (Finish m) q) ! m)
          = settle (fst (snd (submissions evs ! m) (st q)))" if r: "is_running q"
  proof -
    from 4 r have cf: "can_finish q m" by simp
    then have lt: "m < length (chain q)" by (simp add: can_finish_def)
    obtain ty task where tk: "submissions evs ! m = (ty, task)"
      by (cases "submissions evs ! m")
    from ts have "map entry_task (chain q) ! m
        = map (\<lambda>(ty, task). (ty, wrappedTask task ty)) (submissions evs) ! m" by simp
    with lt len tk have body: "ebody (chain q ! m) = wrappedTask task ty"
      by (simp add: entry_task_def)
    from cf lt show ?thesis
      by (simp add: step.simps Let_def body wrappedTask_status tk)
  qed
  note dr = drain_run[OF sh ts]
  have 8: "\<forall>en \<in> set (chain (drain q)). settled (estate en)"
    using drain_settled[of q] by (auto simp: in_set_conv_nth)
  have 9: "map entry_task (chain (drain q)) = map entry_task (chain q)"
    by (simp add: drain_def exec_drain_tasks)
  from drain_log[OF sh] len
  have 10: "log (drain q) = serial_log (length (submissions evs)) False" by simp
  let ?b = "exec (submit_all tasks) (new_server s)"
  from chain_shape_exec[OF chain_shape_new, of "submit_all tasks" s]
  obtain mb rb where "chain_shape ?b mb rb" by blast
  with chain_shape_settled_count[OF this] have shb: "chain_shape ?b 0 rb"
    by (simp add: settled_count_submit_all)
  have tsb: "map entry_task (chain ?b)
       = map (\<lambda>(ty, task). (ty, wrappedTask task ty)) (submissions (submit_all tasks))"
    using exec_tasks[of "submit_all tasks" "new_server s"] by (simp add: new_server_def)
  have stb: "st ?b = s\<lparr>queueDepth := queueDepth s + int (length tasks)\<rparr>"
    by (simp add: exec_submit_all new_server_def)
  note db = drain_run[OF shb tsb]
  have 11: "st (drain ?b)
       = snd (run_in_order (submissions (submit_all tasks))
               (s\<lparr>queueDepth := queueDepth s + int (length tasks)\<rparr>))"
    using db(1) by (simp add: stb)
  have 12: "map estate (chain (drain ?b))
       = fst (run_in_order (submissions (submit_all tasks))
               (s\<lparr>queueDepth := queueDepth s + int (length tasks)\<rparr>))"
    using db(2) by (simp add: stb)
  from sh ts 3 4 5 dr 8 9 10 11 12 show ?thesis by blast
qed


theorem enqueueTask_serial_witness:
  "map estate (chain (exec queue_example (new_server state0)))
     = [Rejected (External (js ''boom'')), Running]
   \<and> settled_count (exec queue_example (new_server state0)) = 1
   \<and> is_running (exec queue_example (new_server state0))
   \<and> calls (st (exec queue_example (new_server state0))) = [AbortXiaoAI]
   \<and> submissions queue_example = [(js ''first'', failing_task), (js ''task'', speaking_task)]
   \<and> map estate (chain (drain (exec queue_example (new_server state0))))
     = [Rejected (External (js ''boom'')), Fulfilled (Str (js ''xiaomi''))]
   \<and> calls (st (drain (exec queue_example (new_server state0))))
     = [AbortXiaoAI, PlayText (js ''hi'')]
   \<and> lastTaskError (st (drain (exec queue_example (new_server state0)))) = None
   \<and> queueDepth (st (drain (exec queue_example (new_server state0)))) = 0
   \<and> log (drain (exec queue_example (new_server state0)))
     = [Started 0, Finished 0, Started 1, Finished 1]"
proof -
  let ?q = "exec queue_example (new_server state0)"
  have c: "map estate (chain ?q) = [Rejected (External (js ''boom'')), Running]"
    and l: "calls (st ?q) = [AbortXiaoAI]"
    by (simp_all add: queue_example_def exec_def step.simps enqueueTask_def can_start_def
        can_finish_def wrappedTask_status settle_def new_server_def Let_def failing_task_eq
        state0_def status_after_def)
  have sc: "settled_count ?q = 1"
    and ir: "is_running ?q"
    by (simp_all add: settled_count_def is_running_def queue_example_def exec_def step.simps
        enqueueTask_def can_start_def can_finish_def wrappedTask_status settle_def
        new_server_def Let_def failing_task_eq)
  have sb: "submissions queue_example
      = [(js ''first'', failing_task), (js ''task'', speaking_task)]"
    by (simp add: queue_example_def submissions_def or_else_def js_def)
  have qd: "queueDepth (st ?q) = 1" "lastTaskError (st ?q)
       = Some \<lparr>err_type = js ''first'', err_message = External (js ''boom''), err_at = 0\<rparr>"
    by (simp_all add: queue_example_def exec_def step.simps enqueueTask_def can_start_def
        can_finish_def wrappedTask_status settle_def new_server_def Let_def failing_task_eq
        state0_def status_after_def or_else_def js_def)
  note T = enqueueTask_serial[of ?q queue_example state0 1]
  from T sc c sb l qd show ?thesis
    by (simp add: speaking_task_eq status_after_def settle_def serial_log_def ir)
qed

section \<open>Awaiting a task through the queue\<close>

lemma own_turn_chain:
  "length (chain (own_turn task ty q)) = Suc (length (chain q))
   \<and> chain (own_turn task ty q) ! length (chain q)
       = \<lparr>etype = or_else ty (js ''task''),
          ebody = wrappedTask task (or_else ty (js ''task'')), estate = Waiting\<rparr>
   \<and> (\<forall>k<length (chain q). settled (estate (chain (own_turn task ty q) ! k)))"
  using exec_drain_prefix[of "length (chain q)" "enqueueTask task ty q"]
  by (simp add: own_turn_def enqueueTask_def Let_def)

lemma own_turn_idle:
  assumes "idle q"
  shows "own_turn task ty q = enqueueTask task ty q"
proof -
  from assms have "\<forall>k<length (chain q). settled (estate (chain q ! k))"
    by (simp add: idle_def list_all_length)
  then have "\<forall>k<length (chain q). settled (estate (chain (enqueueTask task ty q) ! k))"
    by (simp add: enqueueTask_def Let_def nth_append)
  then show ?thesis
    unfolding own_turn_def
    by (intro exec_drain_idle) (simp_all add: enqueueTask_def Let_def)
qed

lemma own_turn_idle_calls:
  "idle q \<Longrightarrow> calls (st (own_turn task ty q)) = calls (st q)"
  by (simp add: own_turn_idle enqueueTask_def Let_def)

lemma drain_enqueueTask:
  "drain (enqueueTask task ty q)
     = step (Finish (length (chain q))) (step (Start (length (chain q))) (own_turn task ty q))"
  by (simp add: drain_def own_turn_def enqueueTask_def Let_def drain_events_Suc exec_append
      exec_Cons exec_Nil)

lemma await_entry_settle: "estate en = settle r \<Longrightarrow> await_entry en = r"
  by (cases r) (simp_all add: await_entry_def settle_def)

text \<open>The caller's task runs in its own turn, once, and the caller gets its result.\<close>

lemma enqueue_and_await_eq:
  "enqueue_and_await task ty q =
     (let q1 = own_turn task ty q;
          taskType = or_else ty (js ''task'');
          r = wrappedTask task taskType (st q1)
      in (fst r,
          q1\<lparr>st := snd r,
             chain := (chain q1)[length (chain q) :=
                        \<lparr>etype = taskType, ebody = wrappedTask task taskType,
                         estate = settle (fst r)\<rparr>],
             log := log q1 @ [Started (length (chain q)), Finished (length (chain q))]\<rparr>))"
proof -
  let ?n = "length (chain q)"
  let ?q1 = "own_turn task ty q"
  from own_turn_chain[of task ty q]
  have len: "length (chain ?q1) = Suc ?n"
    and ent: "chain ?q1 ! ?n = \<lparr>etype = or_else ty (js ''task''),
          ebody = wrappedTask task (or_else ty (js ''task'')), estate = Waiting\<rparr>"
    and pre: "\<forall>k<?n. settled (estate (chain ?q1 ! k))"
    by auto
  have cs: "can_start ?q1 ?n"
    using len ent pre by (cases ?n) (auto simp: can_start_def)
  have ne: "chain ?q1 \<noteq> []" using len by auto
  show ?thesis
    using cs len ent ne
    by (simp add: enqueue_and_await_def drain_enqueueTask step.simps can_finish_def Let_def
        last_list_update await_entry_settle)
qed

lemma fst_wrappedTask [simp]: "fst (wrappedTask task ty s) = fst (task s)"
  by (simp add: wrappedTask_def split: prod.splits sum.splits)

lemma calls_wrappedTask [simp]: "calls (snd (wrappedTask task ty s)) = calls (snd (task s))"
  by (simp add: wrappedTask_def task_finally_def split: prod.splits sum.splits)

lemma as_val_eq:
  "as_val m s = (case m s of (Inl err, s') \<Rightarrow> (Inl err, s') | (Inr x, s') \<Rightarrow> (Inr (Str x), s'))"
  by (simp add: as_val_def await_def ret_def split: prod.splits sum.splits)

section \<open>Speaking\<close>

declare wait_loop.simps [simp del]

lemma getEngineOrThrow_ready:
  "engine_ready e \<Longrightarrow> \<exists>g. getEngineOrThrow e s = (Inr g, s)"
  by (auto simp: engine_ready_def getEngineOrThrow_def split: option.splits)

lemma getEngineOrThrow_not_ready:
  "\<not> engine_ready e \<Longrightarrow> getEngineOrThrow e s = (Inl EngineNotReady, s)"
  by (auto simp: engine_ready_def getEngineOrThrow_def split: option.splits)


lemma tts_canSynthesize_yes:
  "synthesis_capable e \<Longrightarrow> tts_canSynthesize e s = (Inr True, s)"
  by (auto simp: synthesis_capable_def tts_canSynthesize_def split: option.splits)

lemma speakByXiaomi_eq:
  "speakByXiaomi e text s =
     (case play_outcome e (calls s) (PlayText text) of
        Some err \<Rightarrow> (Inl err, perform e (PlayText text) s)
      | None \<Rightarrow> (Inr (js ''xiaomi''),
                 (perform e (PlayText text) s)\<lparr>lastSpeakMode := Some (js ''xiaomi''),
                    lastSpeakAt := Some (now (perform e (PlayText text) s))\<rparr>))"
  by (simp add: speakByXiaomi_def await_def play_def of_outcome_def set_lastSpeak_def
      split: option.splits)

lemma calls_perform [simp]: "calls (perform e c s) = calls s @ [c]"
  by (simp add: perform_def)




lemma synthesis_capable_doubao: "synthesis_capable (tts_env f)"
  by (simp add: synthesis_capable_def env_eval str_eval Let_def)




section \<open>Requests while the engine is not ready\<close>

lemma speakByText_rejects_not_ready:
  "\<not> engine_ready e \<Longrightarrow> speakByText e text i sm s = (Inl EngineNotReady, s)"
  by (simp add: speakByText_def await_def getEngineOrThrow_not_ready)

lemma askAndSpeak_rejects_not_ready:
  "\<not> engine_ready e \<Longrightarrow> askAndSpeak e text i sm s = (Inl EngineNotReady, s)"
  by (simp add: askAndSpeak_def await_def getEngineOrThrow_not_ready)

lemma playByUrl_rejects_not_ready:
  "\<not> engine_ready e \<Longrightarrow> playByUrl e url i b s = (Inl EngineNotReady, s)"
  by (simp add: playByUrl_def await_def getEngineOrThrow_not_ready)

lemma enqueue_and_await_rejected:
  assumes "\<And>s. task s = (Inl err, s)" "ty \<noteq> []"
  shows "fst (enqueue_and_await task ty q) = Inl err
       \<and> rejected_in_queue ty err q (snd (enqueue_and_await task ty q))
       \<and> calls (st (snd (enqueue_and_await task ty q))) = calls (st (own_turn task ty q))"
proof -
  from own_turn_chain[of task ty q] have "chain (own_turn task ty q) \<noteq> []" by auto
  with own_turn_chain[of task ty q] assms show ?thesis
    by (simp add: enqueue_and_await_eq Let_def rejected_in_queue_def or_else_def
        wrappedTask_def task_finally_def settle_def last_list_update)
qed

text \<open>
  C4, as the claim states it, fails: \<open>getEngineOrThrow\<close> is called inside the task, so
  with no engine a speak request on a new server is enqueued (depth 0 becomes 1, the
  chain gets an entry that is started and finished) and the queue status, empty before,
  holds the task type and the error afterwards.
\<close>

theorem engine_not_ready_enqueued_counterexample:
  "\<not> engine_ready no_engine_env
   \<and> fst (handleSpeak no_engine_env hi_body (new_server state0)) = Inl EngineNotReady
   \<and> queueDepth (st (new_server state0)) = 0
   \<and> queueDepth (st (enqueueTask (as_val (speakByText no_engine_env (js ''hi'') False False))
        (js ''api:speak'') (new_server state0))) = 1
   \<and> map etype (chain (snd (handleSpeak no_engine_env hi_body (new_server state0))))
       = [js ''api:speak'']
   \<and> map estate (chain (snd (handleSpeak no_engine_env hi_body (new_server state0))))
       = [Rejected EngineNotReady]
   \<and> log (snd (handleSpeak no_engine_env hi_body (new_server state0)))
       = [Started 0, Finished 0]
   \<and> lastTaskType (st (new_server state0)) = None
   \<and> lastTaskType (st (snd (handleSpeak no_engine_env hi_body (new_server state0))))
       = Some (js ''api:speak'')
   \<and> lastTaskError (st (new_server state0)) = None
   \<and> lastTaskError (st (snd (handleSpeak no_engine_env hi_body (new_server state0))))
       = Some \<lparr>err_type = js ''api:speak'', err_message = EngineNotReady, err_at = 0\<rparr>"
  by (simp add: handleSpeak_def hi_body_def enqueue_and_await_def queue_eval await_entry_def
        speak_eval env_eval device_defs action_defs str_eval engine_ready_def)

text \<open>
  C4, amended. A speak, chat or play request that arrives while the engine is not
  ready (no engine, or one lacking MiNA or MiOT) and carries its required field is
  enqueued like any other: \<open>enqueueTask\<close> raises the queue depth by one, the task runs
  in its turn and fails there with \<open>EngineNotReady\<close> before any device call, the error
  reaches the caller, and the queue status records the task type and the error. No
  device call: the body of the task returns the error and leaves the state as it was,
  so the calls made when the request returns are those made when its task got its
  turn, and on a server with no pending task those made when the request arrived.
\<close>

theorem engine_not_ready_rejected_in_queue:
  assumes "\<not> engine_ready e"
  shows "(trim (b_text body) \<noteq> [] \<longrightarrow>
            fst (handleSpeak e body q) = Inl EngineNotReady
            \<and> rejected_in_queue (js ''api:speak'') EngineNotReady q (snd (handleSpeak e body q))
            \<and> calls (st (snd (handleSpeak e body q)))
                = calls (st (own_turn (as_val (speakByText e (trim (b_text body))
                     (b_interrupt body \<noteq> Some False) (b_storyMode body = Some True)))
                     (js ''api:speak'') q))
            \<and> (idle q \<longrightarrow> calls (st (snd (handleSpeak e body q))) = calls (st q)))
       \<and> (trim (b_text body) \<noteq> [] \<longrightarrow>
            fst (handleChat e body q) = Inl EngineNotReady
            \<and> rejected_in_queue (js ''api:chat'') EngineNotReady q (snd (handleChat e body q))
            \<and> calls (st (snd (handleChat e body q)))
                = calls (st (own_turn (askAndSpeak e (trim (b_text body))
                     (b_interrupt body \<noteq> Some False) (b_storyMode body = Some True))
                     (js ''api:chat'') q))
            \<and> (idle q \<longrightarrow> calls (st (snd (handleChat e body q))) = calls (st q)))
       \<and> (trim (p_url pbody) \<noteq> [] \<longrightarrow>
            fst (handlePlay e pbody q) = Inl EngineNotReady
            \<and> rejected_in_queue (js ''api:play'') EngineNotReady q (snd (handlePlay e pbody q))
            \<and> calls (st (snd (handlePlay e pbody q)))
                = calls (st (own_turn (playByUrl e (trim (p_url pbody))
                     (p_interrupt pbody \<noteq> Some False) (p_blocking pbody = Some True))
                     (js ''api:play'') q))
            \<and> (idle q \<longrightarrow> calls (st (snd (handlePlay e pbody q))) = calls (st q)))
       \<and> speakByText e text i sm s = (Inl EngineNotReady, s)
       \<and> askAndSpeak e text i sm s = (Inl EngineNotReady, s)
       \<and> playByUrl e url i b s = (Inl EngineNotReady, s)
       \<and> queueDepth (st (enqueueTask task ty q)) = queueDepth (st q) + 1"
proof -
  let ?speak = "as_val (speakByText e (trim (b_text body))
          (b_interrupt body \<noteq> Some False) (b_storyMode body = Some True))"
  let ?chat = "askAndSpeak e (trim (b_text body))
          (b_interrupt body \<noteq> Some False) (b_storyMode body = Some True)"
  let ?play = "playByUrl e (trim (p_url pbody))
          (p_interrupt pbody \<noteq> Some False) (p_blocking pbody = Some True)"
  have ne: "js ''api:speak'' \<noteq> []" "js ''api:chat'' \<noteq> []" "js ''api:play'' \<noteq> []"
    by (simp_all add: js_def)
  have sp: "as_val (speakByText e t i sm) s = (Inl EngineNotReady, s)" for t i sm s
    by (simp add: as_val_eq speakByText_rejects_not_ready[OF assms])
  note r1 = enqueue_and_await_rejected[of "?speak" EngineNotReady "js ''api:speak''" q,
      OF sp ne(1)]
  note r2 = enqueue_and_await_rejected[of "?chat" EngineNotReady "js ''api:chat''" q,
      OF askAndSpeak_rejects_not_ready[OF assms] ne(2)]
  note r3 = enqueue_and_await_rejected[of "?play" EngineNotReady "js ''api:play''" q,
      OF playByUrl_rejects_not_ready[OF assms] ne(3)]
  have e1: "trim (b_text body) \<noteq> [] \<Longrightarrow>
      handleSpeak e body q
        = (Inl EngineNotReady, snd (enqueue_and_await ?speak (js ''api:speak'') q))"
    using r1 by (auto simp: handleSpeak_def Let_def split: prod.splits sum.splits)
  have e2: "trim (b_text body) \<noteq> [] \<Longrightarrow>
      handleChat e body q
        = (Inl EngineNotReady, snd (enqueue_and_await ?chat (js ''api:chat'') q))"
    using r2 by (auto simp: handleChat_def Let_def split: prod.splits sum.splits)
  have e3: "trim (p_url pbody) \<noteq> [] \<Longrightarrow>
      handlePlay e pbody q
        = (Inl EngineNotReady, snd (enqueue_and_await ?play (js ''api:play'') q))"
    using r3 by (auto simp: handlePlay_def Let_def split: prod.splits sum.splits)
  have 1: "trim (b_text body) \<noteq> [] \<longrightarrow>
            fst (handleSpeak e body q) = Inl EngineNotReady
            \<and> rejected_in_queue (js ''api:speak'') EngineNotReady q (snd (handleSpeak e body q))
            \<and> calls (st (snd (handleSpeak e body q)))
                = calls (st (own_turn ?speak (js ''api:speak'') q))
            \<and> (idle q \<longrightarrow> calls (st (snd (handleSpeak e body q))) = calls (st q))"
    using r1 by (simp add: e1 own_turn_idle_calls)
  have 2: "trim (b_text body) \<noteq> [] \<longrightarrow>
            fst (handleChat e body q) = Inl EngineNotReady
            \<and> rejected_in_queue (js ''api:chat'') EngineNotReady q (snd (handleChat e body q))
            \<and> calls (st (snd (handleChat e body q)))
                = calls (st (own_turn ?chat (js ''api:chat'') q))
            \<and> (idle q \<longrightarrow> calls (st (snd (handleChat e body q))) = calls (st q))"
    using r2 by (simp add: e2 own_turn_idle_calls)
  have 3: "trim (p_url pbody) \<noteq> [] \<longrightarrow>
            fst (handlePlay e pbody q) = Inl EngineNotReady
            \<and> rejected_in_queue (js ''api:play'') EngineNotReady q (snd (handlePlay e pbody q))
            \<and> calls (st (snd (handlePlay e pbody q)))
                = calls (st (own_turn ?play (js ''api:play'') q))
            \<and> (idle q \<longrightarrow> calls (st (snd (handlePlay e pbody q))) = calls (st q))"
    using r3 by (simp add: e3 own_turn_idle_calls)
  have 4: "queueDepth (st (enqueueTask task ty q)) = queueDepth (st q) + 1"
    by (simp add: enqueueTask_def Let_def)
  note 5 = speakByText_rejects_not_ready[OF assms, of "text" i sm s]
  note 6 = askAndSpeak_rejects_not_ready[OF assms, of "text" i sm s]
  note 7 = playByUrl_rejects_not_ready[OF assms, of url i b s]
  from 1 2 3 4 5 6 7 show ?thesis by blast
qed

theorem engine_not_ready_rejected_in_queue_witness:
  "\<not> engine_ready no_engine_env
   \<and> trim (b_text hi_body) \<noteq> []
   \<and> idle (new_server state0)
   \<and> fst (handleSpeak no_engine_env hi_body (new_server state0)) = Inl EngineNotReady
   \<and> rejected_in_queue (js ''api:speak'') EngineNotReady (new_server state0)
        (snd (handleSpeak no_engine_env hi_body (new_server state0)))
   \<and> calls (st (snd (handleSpeak no_engine_env hi_body (new_server state0)))) = []
   \<and> fst (handleChat no_engine_env hi_body (new_server state0)) = Inl EngineNotReady
   \<and> calls (st (snd (handleChat no_engine_env hi_body (new_server state0)))) = []
   \<and> trim (p_url \<lparr>p_url = js ''u'', p_interrupt = None, p_blocking = None\<rparr>) \<noteq> []
   \<and> fst (handlePlay no_engine_env \<lparr>p_url = js ''u'', p_interrupt = None, p_blocking = None\<rparr>
           (new_server state0)) = Inl EngineNotReady
   \<and> calls (st (snd (handlePlay no_engine_env
           \<lparr>p_url = js ''u'', p_interrupt = None, p_blocking = None\<rparr> (new_server state0)))) = []"
proof -
  have n: "\<not> engine_ready no_engine_env"
    by (simp add: engine_ready_def no_engine_env_def)
  have t: "trim (b_text hi_body) \<noteq> []"
    "trim (p_url \<lparr>p_url = js ''u'', p_interrupt = None, p_blocking = None\<rparr>) \<noteq> []"
    by (simp_all add: hi_body_def str_eval)
  have i: "idle (new_server state0)" "calls (st (new_server state0)) = []"
    by (simp_all add: idle_def new_server_def state0_def)
  from engine_not_ready_rejected_in_queue[OF n, of hi_body "new_server state0"
      "\<lparr>p_url = js ''u'', p_interrupt = None, p_blocking = None\<rparr>"
      "[]" False False state0 "[]" False "ret Undefined" "[]"] n t i
  show ?thesis by (simp add: own_turn_idle_calls)
qed

section \<open>Fallback to the default voice\<close>

lemma speakByText_capable:
  assumes "synthesis_capable e" "engine_ready e" "interrupt \<longrightarrow> abort_outcome e (calls s) = None"
  shows "speakByText e text interrupt sm s =
           try_catch (speakByTTS e text sm) (\<lambda>_. speakByXiaomi e text) (after_interrupt e interrupt s)"
proof -
  from getEngineOrThrow_ready[OF assms(2)] obtain g where g: "getEngineOrThrow e s = (Inr g, s)"
    by blast
  show ?thesis
    using g assms(3) tts_canSynthesize_yes[OF assms(1)]
    by (simp add: speakByText_def await_def ret_def abortXiaoAI_def of_outcome_def
        after_interrupt_def)
qed

lemma speakByText_catches:
  assumes "synthesis_capable e" "engine_ready e" "interrupt \<longrightarrow> abort_outcome e (calls s) = None"
    and "fst (speakByTTS e text sm (after_interrupt e interrupt s)) = Inl err"
  shows "speakByText e text interrupt sm s =
           speakByXiaomi e text (snd (speakByTTS e text sm (after_interrupt e interrupt s)))"
  using assms(4)
  by (auto simp: speakByText_capable[OF assms(1-3)] try_catch_def split: prod.splits sum.splits)

lemma speakByTTS_single:
  "speakByTTS e text False s =
     (case tts_synthesize e text s of
        (Inl err, s1) \<Rightarrow> (Inl err, s1)
      | (Inr audioUrl, s1) \<Rightarrow>
          (case play_outcome e (calls s1) (PlayUrl audioUrl False) of
             Some err \<Rightarrow> (Inl err, perform e (PlayUrl audioUrl False) s1)
           | None \<Rightarrow> set_lastSpeak (js ''tts:'' @ ttsProvider e) (perform e (PlayUrl audioUrl False) s1)))"
  by (simp add: speakByTTS_def await_def play_def of_outcome_def
      split: prod.splits sum.splits option.splits)

text \<open>
  C3, as the claim states it, fails when the fallback play fails too: with a provider
  whose synthesis fails and a device on which every play fails, the caller of a
  single-shot speak receives the error of the text play, not a successful result.
\<close>

theorem speakByText_fallback_fails_counterexample:
  "synthesis_capable offline_env
   \<and> engine_ready offline_env
   \<and> fst (tts_synthesize offline_env (js ''hi'') state0) = Inl (External (js ''tts''))
   \<and> fst (speakByText offline_env (js ''hi'') False False state0) = Inl (External (js ''offline''))
   \<and> calls (snd (speakByText offline_env (js ''hi'') False False state0))
       = [Synthesize (js ''hi''), PlayText (js ''hi'')]"
  by (simp add: synthesis_capable_def engine_ready_def speak_eval env_eval device_defs
      action_defs str_eval Let_def)

text \<open>
  C3, amended. In a single-shot speak against a synthesis-capable provider (engine
  ready, the optional abort succeeded), when the synthesis fails or the play of the
  synthesized URL fails, the failure is caught and the text is played through the
  default voice: the play of the text is the next call. If that play succeeds the
  caller receives the mode \<open>xiaomi\<close>, which is also recorded as the last speak mode; if
  it fails, its error goes to the caller.
\<close>

theorem speakByText_single_shot_fallback:
  assumes "synthesis_capable e" "engine_ready e" "interrupt \<longrightarrow> abort_outcome e (calls s) = None"
    and "fst (tts_synthesize e text (after_interrupt e interrupt s)) = Inl err
         \<or> (\<exists>url. fst (tts_synthesize e text (after_interrupt e interrupt s)) = Inr url
                \<and> play_outcome e (calls (snd (tts_synthesize e text (after_interrupt e interrupt s))))
                     (PlayUrl url False) = Some err)"
  shows "speakByText e text interrupt False s
           = speakByXiaomi e text (snd (speakByTTS e text False (after_interrupt e interrupt s)))
       \<and> calls (snd (speakByText e text interrupt False s))
           = calls (snd (speakByTTS e text False (after_interrupt e interrupt s))) @ [PlayText text]
       \<and> (play_outcome e (calls (snd (speakByTTS e text False (after_interrupt e interrupt s))))
             (PlayText text) = None \<longrightarrow>
            fst (speakByText e text interrupt False s) = Inr (js ''xiaomi'')
            \<and> lastSpeakMode (snd (speakByText e text interrupt False s)) = Some (js ''xiaomi''))
       \<and> (\<forall>err'. play_outcome e (calls (snd (speakByTTS e text False (after_interrupt e interrupt s))))
             (PlayText text) = Some err' \<longrightarrow>
            fst (speakByText e text interrupt False s) = Inl err')"
proof -
  let ?s1 = "after_interrupt e interrupt s"
  from assms(4) have "fst (speakByTTS e text False ?s1) = Inl err"
    by (auto simp: speakByTTS_single split: prod.splits sum.splits)
  from speakByText_catches[OF assms(1-3) this]
  have eq: "speakByText e text interrupt False s
           = speakByXiaomi e text (snd (speakByTTS e text False ?s1))" .
  show ?thesis
    unfolding eq by (auto simp: speakByXiaomi_eq split: option.splits)
qed

theorem speakByText_single_shot_fallback_witness:
  "synthesis_capable (tts_env failing_synth)
   \<and> engine_ready (tts_env failing_synth)
   \<and> fst (tts_synthesize (tts_env failing_synth) (js ''hi'')
            (after_interrupt (tts_env failing_synth) True state0)) = Inl (External (js ''tts''))
   \<and> fst (speakByText (tts_env failing_synth) (js ''hi'') True False state0) = Inr (js ''xiaomi'')
   \<and> calls (snd (speakByText (tts_env failing_synth) (js ''hi'') True False state0))
       = [AbortXiaoAI, Synthesize (js ''hi''), PlayText (js ''hi'')]"
proof -
  let ?e = "tts_env failing_synth"
  have r: "engine_ready ?e"
    by (simp add: engine_ready_def env_eval)
  have a: "True \<longrightarrow> abort_outcome ?e (calls state0) = None"
    by (simp add: env_eval)
  have f: "fst (tts_synthesize ?e (js ''hi'') (after_interrupt ?e True state0))
             = Inl (External (js ''tts''))"
    by (simp add: after_interrupt_def speak_eval env_eval device_defs str_eval Let_def)
  have c: "calls (snd (speakByTTS ?e (js ''hi'') False (after_interrupt ?e True state0)))
             = [AbortXiaoAI, Synthesize (js ''hi'')]"
    by (simp add: after_interrupt_def speak_eval env_eval device_defs action_defs str_eval Let_def)
  have p: "play_outcome ?e [AbortXiaoAI, Synthesize (js ''hi'')] (PlayText (js ''hi'')) = None"
    by (simp add: env_eval)
  from f have h: "fst (tts_synthesize ?e (js ''hi'') (after_interrupt ?e True state0))
             = Inl (External (js ''tts''))
         \<or> (\<exists>url. fst (tts_synthesize ?e (js ''hi'') (after_interrupt ?e True state0)) = Inr url
                \<and> play_outcome ?e (calls (snd (tts_synthesize ?e (js ''hi'')
                       (after_interrupt ?e True state0)))) (PlayUrl url False)
                     = Some (External (js ''tts'')))"
    by simp
  note T = speakByText_single_shot_fallback[OF synthesis_capable_doubao r a h, THEN conjunct2]
  from T c have 1: "calls (snd (speakByText ?e (js ''hi'') True False state0))
       = [AbortXiaoAI, Synthesize (js ''hi''), PlayText (js ''hi'')]"
    by simp
  from T c p have 2: "fst (speakByText ?e (js ''hi'') True False state0) = Inr (js ''xiaomi'')"
    by simp
  from 1 2 f r synthesis_capable_doubao[of failing_synth] show ?thesis by simp
qed

section \<open>Story mode: a failing synthesis\<close>

lemma story_loop_append:
  "story_loop e i (xs @ ys) s =
     (case story_loop e i xs s of
        (Inl err, s') \<Rightarrow> (Inl err, s')
      | (Inr _, s') \<Rightarrow> story_loop e (i + length xs) ys s')"
  by (induction xs arbitrary: i s) (auto split: prod.splits sum.splits)

lemma story_loop_synthesis_fails:
  assumes "fst (tts_synthesize e chunk s) = Inl err"
  shows "story_loop e i (chunk # rest) s = (Inl err, snd (tts_synthesize e chunk s))"
  using assms by (auto split: prod.splits sum.splits)

lemma calls_tts_synthesize:
  "calls (snd (tts_synthesize e chunk s)) = calls s
   \<or> calls (snd (tts_synthesize e chunk s)) = calls s @ [Synthesize chunk]"
  by (auto simp: tts_synthesize_def split: option.splits sum.splits)

lemma speakStoryMode_ready:
  "engine_ready e \<Longrightarrow>
     speakStoryMode e text s =
       (case story_loop e 0 (story_chunks e text) s of
          (Inl err, s') \<Rightarrow> (Inl err, s') | (Inr _, s') \<Rightarrow> (Inr (js ''story''), s'))"
  using getEngineOrThrow_ready[of e s]
  by (auto simp: speakStoryMode_def await_def ret_def split: prod.splits sum.splits)

lemma example_story_chunks:
  "splitTextForStory example_story 5 10 = [chunk_one, chunk_two]"
  by (simp add: splitTextForStory_refines example_story_groups chunk_one_def chunk_two_def)

lemma trim_example_story: "trim example_story = example_story"
  by (simp add: example_story_def str_eval)

lemma example_story_nonempty: "example_story \<noteq> []"
  by (simp add: example_story_def)

text \<open>The environment \<open>tts_env f\<close>, field by field.\<close>

lemma tts_env_sel:
  "engine (tts_env f) = Some \<lparr>MiNA = True, MiOT = True\<rparr>"
  "story (tts_env f) = test_story"
  "abort_outcome (tts_env f) = (\<lambda>_. None)"
  "play_outcome (tts_env f) = (\<lambda>_ _. None)"
  "status_outcome (tts_env f) = (\<lambda>_. Inr False)"
  "call_ms (tts_env f) = timer_clock"
  by (simp_all add: tts_env_def ok_env_def)

lemma tts_env_tts:
  "tts_synthesize (tts_env f) text s = (f (calls s) text, perform (tts_env f) (Synthesize text) s)"
  "tts_canSynthesize (tts_env f) s = (Inr True, s)"
  "ttsProvider (tts_env f) = js ''volcano''"
  by (simp_all add: tts_synthesize_def tts_canSynthesize_def ttsProvider_def env_eval str_eval
      Let_def)

lemma tts_env_perform:
  "perform (tts_env f) c s =
     s\<lparr>calls := calls s @ [c], now := now s + timer_clock [] c\<rparr>"
  by (simp add: perform_def tts_env_sel timer_clock_def timer_ms_def split: call.splits)

lemma test_story_sel:
  "firstChunkMaxChars test_story = 5" "normalChunkMaxChars test_story = 10"
  "pollIntervalMs test_story = 700" "waitTimeoutMs test_story = 2000"
  by (simp_all add: test_story_def)

lemmas tts_env_eval = tts_env_sel tts_env_tts tts_env_perform test_story_sel
  speakByText_def speakByTTS_def speakByXiaomi_def speakStoryMode_def story_chunks_def
  set_lastSpeak_def getEngineOrThrow_def waitForAudioComplete_def
  abortXiaoAI_def play_def getPlayingStatus_def sleep_def of_outcome_def action_defs

text \<open>
  C2, as the claim states it, fails: the call of \<open>speakStoryMode\<close> is inside the \<open>try\<close>
  block of \<open>speakByText\<close>. With a provider whose synthesis fails on the second chunk,
  a story-mode speak request synthesizes and plays chunk one, fails to synthesize
  chunk two, plays the whole text through the default voice and answers with the
  successful result of mode \<open>xiaomi\<close>; the queue records no error.
\<close>

theorem story_mode_failure_success_counterexample:
  "synthesis_capable (tts_env second_synth_fails)
   \<and> engine_ready (tts_env second_synth_fails)
   \<and> b_storyMode story_body = Some True
   \<and> story_chunks (tts_env second_synth_fails) example_story = [chunk_one, chunk_two]
   \<and> second_synth_fails [AbortXiaoAI, Synthesize chunk_one, PlayUrl (js ''u'') False] chunk_two
       = Inl (External (js ''tts''))
   \<and> fst (handleSpeak (tts_env second_synth_fails) story_body (new_server state0))
       = Inr (SpeakResponse (Str (js ''xiaomi'')) example_story)
   \<and> calls (st (snd (handleSpeak (tts_env second_synth_fails) story_body (new_server state0))))
       = [AbortXiaoAI, Synthesize chunk_one, PlayUrl (js ''u'') False, Synthesize chunk_two,
          PlayText example_story]
   \<and> lastTaskError (st (snd (handleSpeak (tts_env second_synth_fails) story_body
         (new_server state0)))) = None"
  by (simp add: synthesis_capable_doubao engine_ready_def handleSpeak_def story_body_def
      trim_example_story enqueue_and_await_def queue_eval await_entry_def as_val_eq
      tts_env_eval example_story_chunks example_story_nonempty second_synth_fails_def
      state0_def)

text \<open>
  C2, amended. In a story-mode speak against a synthesis-capable provider (engine
  ready, the optional abort succeeded), when the chunks before some chunk have been
  synthesized and played and the synthesis of that chunk fails, the loop stops there:
  no call is made for the remaining chunks (the calls are those made so far, with the
  failed synthesis call when the provider was reached). The error leaves
  \<open>speakStoryMode\<close> but is caught in \<open>speakByText\<close>, which plays the whole text through
  the default voice as its next call: the caller receives the mode \<open>xiaomi\<close> when that
  play succeeds and the error of the play when it fails.
\<close>

theorem story_mode_failure_falls_back:
  assumes "synthesis_capable e" "engine_ready e" "interrupt \<longrightarrow> abort_outcome e (calls s) = None"
    and "story_chunks e text = pre @ chunk # rest"
    and "story_loop e 0 pre (after_interrupt e interrupt s) = (Inr (), s2)"
    and "fst (tts_synthesize e chunk s2) = Inl err"
  shows "story_loop e 0 (story_chunks e text) (after_interrupt e interrupt s)
           = (Inl err, snd (tts_synthesize e chunk s2))
       \<and> (calls (snd (tts_synthesize e chunk s2)) = calls s2
          \<or> calls (snd (tts_synthesize e chunk s2)) = calls s2 @ [Synthesize chunk])
       \<and> speakByText e text interrupt True s
           = speakByXiaomi e text (snd (tts_synthesize e chunk s2))
       \<and> calls (snd (speakByText e text interrupt True s))
           = calls (snd (tts_synthesize e chunk s2)) @ [PlayText text]
       \<and> (play_outcome e (calls (snd (tts_synthesize e chunk s2))) (PlayText text) = None \<longrightarrow>
            fst (speakByText e text interrupt True s) = Inr (js ''xiaomi''))
       \<and> (\<forall>err'. play_outcome e (calls (snd (tts_synthesize e chunk s2))) (PlayText text)
                    = Some err' \<longrightarrow>
            fst (speakByText e text interrupt True s) = Inl err')"
proof -
  let ?s1 = "after_interrupt e interrupt s"
  let ?s3 = "snd (tts_synthesize e chunk s2)"
  have loop: "story_loop e 0 (story_chunks e text) ?s1 = (Inl err, ?s3)"
    using assms(5) story_loop_synthesis_fails[OF assms(6)]
    by (simp add: assms(4) story_loop_append)
  then have "speakStoryMode e text ?s1 = (Inl err, ?s3)"
    by (simp add: speakStoryMode_ready[OF assms(2)])
  then have tts: "speakByTTS e text True ?s1 = (Inl err, ?s3)"
    by (simp add: speakByTTS_def await_def)
  then have "fst (speakByTTS e text True ?s1) = Inl err" by simp
  from speakByText_catches[OF assms(1-3) this] tts
  have eq: "speakByText e text interrupt True s = speakByXiaomi e text ?s3" by simp
  from loop calls_tts_synthesize[of e chunk s2] show ?thesis
    unfolding eq by (auto simp: speakByXiaomi_eq split: option.splits)
qed

theorem story_mode_failure_falls_back_witness:
  "synthesis_capable (tts_env second_synth_fails)
   \<and> engine_ready (tts_env second_synth_fails)
   \<and> abort_outcome (tts_env second_synth_fails) (calls state0) = None
   \<and> story_chunks (tts_env second_synth_fails) example_story = [chunk_one] @ chunk_two # []
   \<and> story_loop (tts_env second_synth_fails) 0 [chunk_one]
        (after_interrupt (tts_env second_synth_fails) True state0) = (Inr (), after_chunk_one)
   \<and> fst (tts_synthesize (tts_env second_synth_fails) chunk_two after_chunk_one)
        = Inl (External (js ''tts''))
   \<and> fst (story_loop (tts_env second_synth_fails) 0
             (story_chunks (tts_env second_synth_fails) example_story)
             (after_interrupt (tts_env second_synth_fails) True state0))
        = Inl (External (js ''tts''))
   \<and> calls (snd (speakByText (tts_env second_synth_fails) example_story True True state0))
        = [AbortXiaoAI, Synthesize chunk_one, PlayUrl (js ''u'') False, Synthesize chunk_two,
           PlayText example_story]
   \<and> fst (speakByText (tts_env second_synth_fails) example_story True True state0)
        = Inr (js ''xiaomi'')"
proof -
  let ?e = "tts_env second_synth_fails"
  have r: "engine_ready ?e"
    by (simp add: engine_ready_def tts_env_sel)
  have a: "True \<longrightarrow> abort_outcome ?e (calls state0) = None"
    by (simp add: tts_env_sel)
  have ch: "story_chunks ?e example_story = [chunk_one] @ chunk_two # []"
    by (simp add: story_chunks_def tts_env_sel test_story_sel example_story_chunks)
  have pre: "story_loop ?e 0 [chunk_one] (after_interrupt ?e True state0)
              = (Inr (), after_chunk_one)"
    by (simp add: after_interrupt_def after_chunk_one_def tts_env_eval second_synth_fails_def
        state0_def)
  have f: "fst (tts_synthesize ?e chunk_two after_chunk_one) = Inl (External (js ''tts''))"
    by (simp add: after_chunk_one_def tts_env_eval second_synth_fails_def)
  have c: "calls (snd (tts_synthesize ?e chunk_two after_chunk_one))
             = [AbortXiaoAI, Synthesize chunk_one, PlayUrl (js ''u'') False, Synthesize chunk_two]"
    by (simp add: after_chunk_one_def tts_env_eval)
  have p: "play_outcome ?e
             [AbortXiaoAI, Synthesize chunk_one, PlayUrl (js ''u'') False, Synthesize chunk_two]
             (PlayText example_story) = None"
    by (simp add: tts_env_sel)
  note T = story_mode_failure_falls_back[OF synthesis_capable_doubao r a ch pre f]
  from T have 1: "fst (story_loop ?e 0 (story_chunks ?e example_story)
                        (after_interrupt ?e True state0)) = Inl (External (js ''tts''))"
    by simp
  note T' = T[THEN conjunct2, THEN conjunct2, THEN conjunct2]
  from T' c have 2: "calls (snd (speakByText ?e example_story True True state0))
        = [AbortXiaoAI, Synthesize chunk_one, PlayUrl (js ''u'') False, Synthesize chunk_two,
           PlayText example_story]"
    by simp
  from T' c p have 3: "fst (speakByText ?e example_story True True state0) = Inr (js ''xiaomi'')"
    by simp
  from 1 2 3 r a ch pre f synthesis_capable_doubao[of second_synth_fails] show ?thesis
    by simp
qed

section \<open>Story mode: waiting for the end of playback\<close>


lemma wait_loop_timeout:
  "\<not> now s - t0 < waitTimeoutMs (story e) \<Longrightarrow> wait_loop e t0 s = (Inl PlaybackWaitTimeout, s)"
  by (subst wait_loop.simps) simp

lemma wait_loop_error:
  "now s - t0 < waitTimeoutMs (story e) \<Longrightarrow> status_outcome e (calls s) = Inl err \<Longrightarrow>
     wait_loop e t0 s = (Inl err, perform e GetPlayingStatus s)"
  by (subst wait_loop.simps) (simp add: getPlayingStatus_def)

lemma wait_loop_done:
  "now s - t0 < waitTimeoutMs (story e) \<Longrightarrow> status_outcome e (calls s) = Inr False \<Longrightarrow>
     wait_loop e t0 s = (Inr (), perform e GetPlayingStatus s)"
  by (subst wait_loop.simps) (simp add: getPlayingStatus_def)

lemma wait_loop_again:
  "now s - t0 < waitTimeoutMs (story e) \<Longrightarrow> status_outcome e (calls s) = Inr True \<Longrightarrow>
     wait_loop e t0 s =
       wait_loop e t0 (perform e (Sleep (pollIntervalMs (story e))) (perform e GetPlayingStatus s))"
  by (subst wait_loop.simps) (simp add: getPlayingStatus_def sleep_def)

lemma poll_calls_0 [simp]: "poll_calls e 0 = []"
  by (simp add: poll_calls_def)

lemma poll_calls_Suc:
  "poll_calls e (Suc n) = [GetPlayingStatus, Sleep (pollIntervalMs (story e))] @ poll_calls e n"
  by (simp add: poll_calls_def)

lemma wait_loop_calls: "\<exists>n. wait_outcome e t0 s (wait_loop e t0 s) n"
proof (induction e t0 s rule: wait_loop.induct)
  case (1 e t0 s)
  show ?case
  proof (cases "now s - t0 < waitTimeoutMs (story e)")
    case False
    then have "wait_outcome e t0 s (wait_loop e t0 s) 0"
      by (simp add: wait_loop_timeout wait_outcome_def)
    then show ?thesis by blast
  next
    case True
    show ?thesis
    proof (cases "status_outcome e (calls s)")
      case (Inl err)
      with True have "wait_outcome e t0 s (wait_loop e t0 s) 0"
        by (simp add: wait_loop_error wait_outcome_def)
      then show ?thesis by blast
    next
      case (Inr playing)
      show ?thesis
      proof (cases playing)
        case False
        with True Inr have "wait_outcome e t0 s (wait_loop e t0 s) 0"
          by (simp add: wait_loop_done wait_outcome_def)
        then show ?thesis by blast
      next
        case playing: True
        let ?s' = "perform e (Sleep (pollIntervalMs (story e))) (perform e GetPlayingStatus s)"
        have "\<exists>n. wait_outcome e t0 (snd (sleep e (pollIntervalMs (story e))
                      (perform e GetPlayingStatus s)))
                 (wait_loop e t0 (snd (sleep e (pollIntervalMs (story e))
                      (perform e GetPlayingStatus s)))) n"
          using True Inr playing
          by (intro "1.IH"[of "Inr playing" "perform e GetPlayingStatus s" playing])
             (simp_all add: getPlayingStatus_def)
        then obtain n where n: "wait_outcome e t0 ?s' (wait_loop e t0 ?s') n"
          by (auto simp: sleep_def)
        have c: "calls ?s' = calls s @ poll_calls e (Suc 0)"
          by (simp add: poll_calls_Suc)
        have eq: "wait_loop e t0 s = wait_loop e t0 ?s'"
          using True Inr playing by (simp add: wait_loop_again)
        have pc: "calls s @ poll_calls e (Suc j) = calls ?s' @ poll_calls e j" for j
          by (simp add: poll_calls_Suc)
        have all: "status_outcome e (calls s @ poll_calls e j) = Inr True" if "j < Suc n" for j
        proof (cases j)
          case 0
          with Inr playing show ?thesis by simp
        next
          case (Suc j')
          with that n show ?thesis by (simp add: wait_outcome_def pc)
        qed
        have "wait_outcome e t0 s (wait_loop e t0 s) (Suc n)"
          using n all
          by (auto simp: eq wait_outcome_def poll_calls_Suc split: sum.splits)
        then show ?thesis by blast
      qed
    qed
  qed
qed


lemma wait_loop_always_playing:
  assumes "\<forall>j. status_outcome e (calls s @ poll_calls e j) = Inr True"
  shows "fst (wait_loop e t0 s) = Inl PlaybackWaitTimeout
       \<and> (\<exists>n. calls (snd (wait_loop e t0 s)) = calls s @ poll_calls e n)
       \<and> waitTimeoutMs (story e) \<le> now (snd (wait_loop e t0 s)) - t0"
proof -
  from wait_loop_calls[of e t0 s] obtain n where "wait_outcome e t0 s (wait_loop e t0 s) n"
    by blast
  with assms show ?thesis
    by (auto simp: wait_outcome_def split: sum.splits)
qed

lemma waitForAudioComplete_eq:
  "waitForAudioComplete e s =
     (if engine_ready e then wait_loop e (now s) s else (Inl EngineNotReady, s))"
  using getEngineOrThrow_ready[of e s] getEngineOrThrow_not_ready[of e s]
  by (auto simp: waitForAudioComplete_def await_def)

lemma waitForAudioComplete_returns:
  assumes "waitForAudioComplete e s = (Inr (), s')"
  shows "\<exists>n. (\<forall>j<n. status_outcome e (calls s @ poll_calls e j) = Inr True)
            \<and> status_outcome e (calls s @ poll_calls e n) = Inr False
            \<and> calls s' = calls s @ poll_calls e n @ [GetPlayingStatus]"
proof -
  from assms have w: "wait_loop e (now s) s = (Inr (), s')"
    by (auto simp: waitForAudioComplete_eq split: if_splits)
  from wait_loop_calls[of e "now s" s] obtain n
    where "wait_outcome e (now s) s (wait_loop e (now s) s) n" by blast
  with w show ?thesis by (auto simp: wait_outcome_def)
qed

lemma waitForAudioComplete_fails:
  assumes "waitForAudioComplete e s = (Inl err, s')"
  shows "\<exists>n. calls s' = calls s @ poll_calls e n
            \<or> calls s' = calls s @ poll_calls e n @ [GetPlayingStatus]"
proof (cases "engine_ready e")
  case False
  with assms have "calls s' = calls s @ poll_calls e 0"
    by (auto simp: waitForAudioComplete_eq)
  then show ?thesis by blast
next
  case True
  with assms have w: "wait_loop e (now s) s = (Inl err, s')"
    by (auto simp: waitForAudioComplete_eq)
  from wait_loop_calls[of e "now s" s] obtain n
    where "wait_outcome e (now s) s (wait_loop e (now s) s) n" by blast
  with w show ?thesis by (auto simp: wait_outcome_def)
qed

lemma story_loop_later:
  assumes "0 < i" "tts_synthesize e chunk s = (Inr url, s1)"
  shows "story_loop e i (chunk # rest) s =
           (case waitForAudioComplete e s1 of
              (Inl err, s2) \<Rightarrow> (Inl err, s2)
            | (Inr _, s2) \<Rightarrow>
                (case play e (PlayUrl url False) s2 of
                   (Inl err, s3) \<Rightarrow> (Inl err, s3)
                 | (Inr _, s3) \<Rightarrow> story_loop e (Suc i) rest s3))"
  using assms by (auto simp: await_def split: prod.splits sum.splits)

lemma story_loop_first:
  assumes "tts_synthesize e chunk s = (Inr url, s1)"
  shows "story_loop e 0 (chunk # rest) s =
           (case play e (PlayUrl url False) s1 of
              (Inl err, s3) \<Rightarrow> (Inl err, s3)
            | (Inr _, s3) \<Rightarrow> story_loop e 1 rest s3)"
  using assms by (auto split: prod.splits sum.splits)

lemma story_loop_after_synthesis:
  assumes "tts_synthesize e chunk s = (Inr url, s1)"
  shows
   "(0 < i \<longrightarrow>
       (\<forall>s2. waitForAudioComplete e s1 = (Inr (), s2) \<longrightarrow>
           (\<exists>n. (\<forall>j<n. status_outcome e (calls s1 @ poll_calls e j) = Inr True)
                \<and> status_outcome e (calls s1 @ poll_calls e n) = Inr False
                \<and> calls s2 = calls s1 @ poll_calls e n @ [GetPlayingStatus])
           \<and> story_loop e i (chunk # rest) s =
               (case play e (PlayUrl url False) s2 of
                  (Inl err, s3) \<Rightarrow> (Inl err, s3)
                | (Inr _, s3) \<Rightarrow> story_loop e (Suc i) rest s3))
     \<and> (\<forall>err s2. waitForAudioComplete e s1 = (Inl err, s2) \<longrightarrow>
           story_loop e i (chunk # rest) s = (Inl err, s2)
           \<and> (\<exists>n. calls s2 = calls s1 @ poll_calls e n
                   \<or> calls s2 = calls s1 @ poll_calls e n @ [GetPlayingStatus]))
     \<and> (engine_ready e \<and> (\<forall>j. status_outcome e (calls s1 @ poll_calls e j) = Inr True) \<longrightarrow>
           fst (story_loop e i (chunk # rest) s) = Inl PlaybackWaitTimeout
           \<and> (\<exists>n. calls (snd (story_loop e i (chunk # rest) s)) = calls s1 @ poll_calls e n)
           \<and> waitTimeoutMs (story e) \<le> now (snd (story_loop e i (chunk # rest) s)) - now s1))
    \<and> story_loop e 0 (chunk # rest) s =
         (case play e (PlayUrl url False) s1 of
            (Inl err, s3) \<Rightarrow> (Inl err, s3)
          | (Inr _, s3) \<Rightarrow> story_loop e 1 rest s3)
    \<and> calls (snd (play e (PlayUrl url False) s1)) = calls s1 @ [PlayUrl url False]"
proof (intro conjI impI allI)
  fix s2 assume i: "0 < i" and w: "waitForAudioComplete e s1 = (Inr (), s2)"
  from waitForAudioComplete_returns[OF w]
  show "\<exists>n. (\<forall>j<n. status_outcome e (calls s1 @ poll_calls e j) = Inr True)
                \<and> status_outcome e (calls s1 @ poll_calls e n) = Inr False
                \<and> calls s2 = calls s1 @ poll_calls e n @ [GetPlayingStatus]" .
  from w show "story_loop e i (chunk # rest) s =
               (case play e (PlayUrl url False) s2 of
                  (Inl err, s3) \<Rightarrow> (Inl err, s3)
                | (Inr _, s3) \<Rightarrow> story_loop e (Suc i) rest s3)"
    by (simp add: story_loop_later[OF i assms] del: story_loop.simps)
next
  fix err s2 assume i: "0 < i" and w: "waitForAudioComplete e s1 = (Inl err, s2)"
  from w show "story_loop e i (chunk # rest) s = (Inl err, s2)"
    by (simp add: story_loop_later[OF i assms] del: story_loop.simps)
  from waitForAudioComplete_fails[OF w]
  show "\<exists>n. calls s2 = calls s1 @ poll_calls e n
           \<or> calls s2 = calls s1 @ poll_calls e n @ [GetPlayingStatus]" .
next
  assume i: "0 < i"
    and p: "engine_ready e \<and> (\<forall>j. status_outcome e (calls s1 @ poll_calls e j) = Inr True)"
  then have a: "\<forall>j. status_outcome e (calls s1 @ poll_calls e j) = Inr True"
    and r: "engine_ready e" by auto
  from wait_loop_always_playing[OF a, of "now s1"] r
  have f: "fst (waitForAudioComplete e s1) = Inl PlaybackWaitTimeout"
    and c: "\<exists>n. calls (snd (waitForAudioComplete e s1)) = calls s1 @ poll_calls e n"
    and t: "waitTimeoutMs (story e) \<le> now (snd (waitForAudioComplete e s1)) - now s1"
    by (simp_all add: waitForAudioComplete_eq)
  from f have eq: "story_loop e i (chunk # rest) s = waitForAudioComplete e s1"
    by (cases "waitForAudioComplete e s1") (simp add: story_loop_later[OF i assms] del: story_loop.simps)
  from f show "fst (story_loop e i (chunk # rest) s) = Inl PlaybackWaitTimeout"
    by (simp add: eq del: story_loop.simps)
  from c show "\<exists>n. calls (snd (story_loop e i (chunk # rest) s)) = calls s1 @ poll_calls e n"
    by (simp add: eq del: story_loop.simps)
  from t show "waitTimeoutMs (story e) \<le> now (snd (story_loop e i (chunk # rest) s)) - now s1"
    by (simp add: eq del: story_loop.simps)
next
  show "story_loop e 0 (chunk # rest) s =
         (case play e (PlayUrl url False) s1 of
            (Inl err, s3) \<Rightarrow> (Inl err, s3)
          | (Inr _, s3) \<Rightarrow> story_loop e 1 rest s3)"
    by (rule story_loop_first[OF assms])
  show "calls (snd (play e (PlayUrl url False) s1)) = calls s1 @ [PlayUrl url False]"
    by (simp add: play_def)
qed

lemma playing_env_sel:
  "engine playing_env = Some \<lparr>MiNA = True, MiOT = True\<rparr>"
  "story playing_env = test_story"
  "abort_outcome playing_env = (\<lambda>_. None)"
  "play_outcome playing_env = (\<lambda>_ _. None)"
  "status_outcome playing_env = (\<lambda>_. Inr True)"
  "call_ms playing_env = timer_clock"
  by (simp_all add: playing_env_def tts_env_def ok_env_def)

lemma playing_env_perform:
  "perform playing_env c s =
     s\<lparr>calls := calls s @ [c], now := now s + timer_clock [] c\<rparr>"
  by (simp add: perform_def playing_env_sel timer_clock_def timer_ms_def split: call.splits)

lemma playing_env_synthesize:
  "tts_synthesize playing_env text s = (Inr (js ''u''), perform playing_env (Synthesize text) s)"
  by (simp add: tts_synthesize_def playing_env_def env_eval str_eval Let_def)

lemmas wait_eval = wait_loop_timeout wait_loop_error wait_loop_done wait_loop_again
  waitForAudioComplete_eq engine_ready_def test_story_sel timer_ms_def

lemma speakStoryMode_at_chunk:
  assumes "engine_ready e"
    and "story_chunks e text = pre @ chunk # rest"
    and "story_loop e 0 pre s = (Inr (), s0)"
  shows "speakStoryMode e text s = story_from e (length pre) (chunk # rest) s0"
  using assms
  by (simp add: speakStoryMode_ready story_loop_append story_from_def await_def ret_def
      del: story_loop.simps split: prod.splits sum.splits)

lemma tts_synthesize_calls:
  "tts_synthesize e chunk s = (Inr url, s1) \<Longrightarrow> calls s1 = calls s @ [Synthesize chunk]"
  by (auto simp: tts_synthesize_def split: option.splits sum.splits)

lemma story_from_fails:
  "story_loop e i chunks s = (Inl err, s') \<Longrightarrow> story_from e i chunks s = (Inl err, s')"
  by (simp add: story_from_def await_def)

lemma story_chunks_example:
  "story_chunks (tts_env f) example_story = [chunk_one, chunk_two]"
  "story_chunks playing_env example_story = [chunk_one, chunk_two]"
  by (simp_all add: story_chunks_def tts_env_sel playing_env_sel test_story_sel
      example_story_chunks)

text \<open>
  C6. Take a story whose chunks are \<open>pre @ chunk # rest\<close>, so that \<open>chunk\<close> has the index
  \<open>length pre\<close>, on a ready engine, and let the chunks before it have been synthesized
  and played. When the synthesis of \<open>chunk\<close> fails, \<open>speakStoryMode\<close> fails with that
  error. When it succeeds, it is the last call made so far, and:

  \<^item> for chunk 0 (\<open>pre\<close> is empty) nothing has been done before, and the play of the
    chunk follows directly, with no status call; the rest of the story comes after it;

  \<^item> for a later chunk, \<open>speakStoryMode\<close> first waits. When the wait returns, it has
    polled the status some \<open>n\<close> times seeing the device playing, each poll followed by
    a sleep of the configured interval, and then once more seeing it not playing; that
    poll is the last call before the play of the chunk, which is the next thing done.
    When the wait fails, \<open>speakStoryMode\<close> fails with the same error, having made only
    status calls and sleeps since the synthesis: the chunk is not played. When the
    device reports playing at every poll of this wait, the wait does end, and
    \<open>speakStoryMode\<close> fails with \<open>PlaybackWaitTimeout\<close>, at least the configured timeout
    after the wait began, and the chunk is not played.

  The play of a chunk is the call \<open>play({url})\<close> with the URL its synthesis returned.
\<close>

theorem story_chunk_waits_for_playback:
  assumes "engine_ready e"
    and "story_chunks e text = pre @ chunk # rest"
    and "story_loop e 0 pre s = (Inr (), s0)"
  shows
   "(\<forall>err s1. tts_synthesize e chunk s0 = (Inl err, s1) \<longrightarrow>
        speakStoryMode e text s = (Inl err, s1))
    \<and> (\<forall>url s1. tts_synthesize e chunk s0 = (Inr url, s1) \<longrightarrow>
         calls s1 = calls s0 @ [Synthesize chunk]
         \<and> (pre = [] \<longrightarrow>
              s0 = s
              \<and> speakStoryMode e text s =
                  await (play e (PlayUrl url False)) (\<lambda>_. story_from e 1 rest) s1)
         \<and> (pre \<noteq> [] \<longrightarrow>
              (\<forall>s2. waitForAudioComplete e s1 = (Inr (), s2) \<longrightarrow>
                 (\<exists>n. (\<forall>j<n. status_outcome e (calls s1 @ poll_calls e j) = Inr True)
                      \<and> status_outcome e (calls s1 @ poll_calls e n) = Inr False
                      \<and> calls s2 = calls s1 @ poll_calls e n @ [GetPlayingStatus])
                 \<and> speakStoryMode e text s =
                     await (play e (PlayUrl url False))
                       (\<lambda>_. story_from e (Suc (length pre)) rest) s2)
              \<and> (\<forall>err s2. waitForAudioComplete e s1 = (Inl err, s2) \<longrightarrow>
                   speakStoryMode e text s = (Inl err, s2)
                   \<and> (\<exists>n. calls s2 = calls s1 @ poll_calls e n
                          \<or> calls s2 = calls s1 @ poll_calls e n @ [GetPlayingStatus]))
              \<and> ((\<forall>j. status_outcome e (calls s1 @ poll_calls e j) = Inr True) \<longrightarrow>
                   fst (speakStoryMode e text s) = Inl PlaybackWaitTimeout
                   \<and> (\<exists>n. calls (snd (speakStoryMode e text s)) = calls s1 @ poll_calls e n)
                   \<and> waitTimeoutMs (story e)
                       \<le> now (snd (speakStoryMode e text s)) - now s1))
         \<and> calls (snd (play e (PlayUrl url False) s')) = calls s' @ [PlayUrl url False])"
proof -
  note at = speakStoryMode_at_chunk[OF assms]
  have 1: "speakStoryMode e text s = (Inl err, s1)"
    if "tts_synthesize e chunk s0 = (Inl err, s1)" for err s1
    using that by (simp add: at story_from_def await_def)
  have 2: "calls s1 = calls s0 @ [Synthesize chunk]
         \<and> (pre = [] \<longrightarrow>
              s0 = s
              \<and> speakStoryMode e text s =
                  await (play e (PlayUrl url False)) (\<lambda>_. story_from e 1 rest) s1)
         \<and> (pre \<noteq> [] \<longrightarrow>
              (\<forall>s2. waitForAudioComplete e s1 = (Inr (), s2) \<longrightarrow>
                 (\<exists>n. (\<forall>j<n. status_outcome e (calls s1 @ poll_calls e j) = Inr True)
                      \<and> status_outcome e (calls s1 @ poll_calls e n) = Inr False
                      \<and> calls s2 = calls s1 @ poll_calls e n @ [GetPlayingStatus])
                 \<and> speakStoryMode e text s =
                     await (play e (PlayUrl url False))
                       (\<lambda>_. story_from e (Suc (length pre)) rest) s2)
              \<and> (\<forall>err s2. waitForAudioComplete e s1 = (Inl err, s2) \<longrightarrow>
                   speakStoryMode e text s = (Inl err, s2)
                   \<and> (\<exists>n. calls s2 = calls s1 @ poll_calls e n
                          \<or> calls s2 = calls s1 @ poll_calls e n @ [GetPlayingStatus]))
              \<and> ((\<forall>j. status_outcome e (calls s1 @ poll_calls e j) = Inr True) \<longrightarrow>
                   fst (speakStoryMode e text s) = Inl PlaybackWaitTimeout
                   \<and> (\<exists>n. calls (snd (speakStoryMode e text s)) = calls s1 @ poll_calls e n)
                   \<and> waitTimeoutMs (story e)
                       \<le> now (snd (speakStoryMode e text s)) - now s1))
         \<and> calls (snd (play e (PlayUrl url False) s')) = calls s' @ [PlayUrl url False]"
    if syn: "tts_synthesize e chunk s0 = (Inr url, s1)" for url s1
  proof -
    note L = story_loop_after_synthesis[OF syn, of "length pre" rest]
    have a: "calls s1 = calls s0 @ [Synthesize chunk]"
      by (rule tts_synthesize_calls[OF syn])
    have b: "s0 = s \<and> speakStoryMode e text s =
                  await (play e (PlayUrl url False)) (\<lambda>_. story_from e 1 rest) s1"
      if p: "pre = []"
    proof -
      from p assms(3) have s0: "s0 = s" by simp
      from L have "story_loop e 0 (chunk # rest) s0 =
         (case play e (PlayUrl url False) s1 of
            (Inl err, s3) \<Rightarrow> (Inl err, s3)
          | (Inr _, s3) \<Rightarrow> story_loop e 1 rest s3)" by blast
      then have "story_from e 0 (chunk # rest) s0
          = await (play e (PlayUrl url False)) (\<lambda>_. story_from e 1 rest) s1"
        by (simp add: story_from_def await_def del: story_loop.simps
            split: prod.splits sum.splits)
      with s0 p show ?thesis by (simp add: at)
    qed
    have c: "(\<exists>n. (\<forall>j<n. status_outcome e (calls s1 @ poll_calls e j) = Inr True)
                      \<and> status_outcome e (calls s1 @ poll_calls e n) = Inr False
                      \<and> calls s2 = calls s1 @ poll_calls e n @ [GetPlayingStatus])
                 \<and> speakStoryMode e text s =
                     await (play e (PlayUrl url False))
                       (\<lambda>_. story_from e (Suc (length pre)) rest) s2"
      if p: "pre \<noteq> []" and w: "waitForAudioComplete e s1 = (Inr (), s2)" for s2
    proof -
      from p have i: "0 < length pre" by simp
      from L i w have n: "\<exists>n. (\<forall>j<n. status_outcome e (calls s1 @ poll_calls e j) = Inr True)
                      \<and> status_outcome e (calls s1 @ poll_calls e n) = Inr False
                      \<and> calls s2 = calls s1 @ poll_calls e n @ [GetPlayingStatus]"
        and l: "story_loop e (length pre) (chunk # rest) s0 =
               (case play e (PlayUrl url False) s2 of
                  (Inl err, s3) \<Rightarrow> (Inl err, s3)
                | (Inr _, s3) \<Rightarrow> story_loop e (Suc (length pre)) rest s3)"
        by blast+
      from l have "story_from e (length pre) (chunk # rest) s0
          = await (play e (PlayUrl url False)) (\<lambda>_. story_from e (Suc (length pre)) rest) s2"
        by (simp add: story_from_def await_def del: story_loop.simps
            split: prod.splits sum.splits)
      with n show ?thesis by (simp add: at)
    qed
    have d: "speakStoryMode e text s = (Inl err, s2)
                   \<and> (\<exists>n. calls s2 = calls s1 @ poll_calls e n
                          \<or> calls s2 = calls s1 @ poll_calls e n @ [GetPlayingStatus])"
      if p: "pre \<noteq> []" and w: "waitForAudioComplete e s1 = (Inl err, s2)" for err s2
    proof -
      from p have i: "0 < length pre" by simp
      from L i w have l: "story_loop e (length pre) (chunk # rest) s0 = (Inl err, s2)"
        and n: "\<exists>n. calls s2 = calls s1 @ poll_calls e n
                   \<or> calls s2 = calls s1 @ poll_calls e n @ [GetPlayingStatus]"
        by blast+
      from story_from_fails[OF l] n show ?thesis by (simp add: at)
    qed
    have f: "fst (speakStoryMode e text s) = Inl PlaybackWaitTimeout
                   \<and> (\<exists>n. calls (snd (speakStoryMode e text s)) = calls s1 @ poll_calls e n)
                   \<and> waitTimeoutMs (story e)
                       \<le> now (snd (speakStoryMode e text s)) - now s1"
      if p: "pre \<noteq> []"
        and a: "\<forall>j. status_outcome e (calls s1 @ poll_calls e j) = Inr True"
    proof -
      from p have i: "0 < length pre" by simp
      let ?r = "story_loop e (length pre) (chunk # rest) s0"
      from L i a assms(1) have l: "fst ?r = Inl PlaybackWaitTimeout"
        and n: "\<exists>n. calls (snd ?r) = calls s1 @ poll_calls e n"
        and t: "waitTimeoutMs (story e) \<le> now (snd ?r) - now s1"
        by blast+
      from l have "?r = (Inl PlaybackWaitTimeout, snd ?r)" by (cases ?r) simp
      from story_from_fails[OF this]
      have "speakStoryMode e text s = (Inl PlaybackWaitTimeout, snd ?r)"
        by (simp add: at)
      with n t show ?thesis by simp
    qed
    have g: "calls (snd (play e (PlayUrl url False) s')) = calls s' @ [PlayUrl url False]"
      by (simp add: play_def)
    from a b c d f g show ?thesis by blast
  qed
  from 1 2 show ?thesis by blast
qed


theorem story_chunk_waits_for_playback_witness:
  "engine_ready (tts_env ok_synth)
   \<and> story_chunks (tts_env ok_synth) example_story = [chunk_one, chunk_two]
   \<and> story_loop (tts_env ok_synth) 0 [] after_abort = (Inr (), after_abort)
   \<and> tts_synthesize (tts_env ok_synth) chunk_one after_abort
       = (Inr (js ''u''), after_abort\<lparr>calls := [AbortXiaoAI, Synthesize chunk_one]\<rparr>)
   \<and> speakStoryMode (tts_env ok_synth) example_story after_abort
       = await (play (tts_env ok_synth) (PlayUrl (js ''u'') False))
           (\<lambda>_. story_from (tts_env ok_synth) 1 [chunk_two])
           (after_abort\<lparr>calls := [AbortXiaoAI, Synthesize chunk_one]\<rparr>)
   \<and> story_loop (tts_env ok_synth) 0 [chunk_one] after_abort = (Inr (), after_chunk_one)
   \<and> tts_synthesize (tts_env ok_synth) chunk_two after_chunk_one
       = (Inr (js ''u''), after_synth_two)
   \<and> waitForAudioComplete (tts_env ok_synth) after_synth_two
       = (Inr (), after_synth_two\<lparr>calls := calls after_synth_two @ [GetPlayingStatus]\<rparr>)
   \<and> status_outcome (tts_env ok_synth) (calls after_synth_two) = Inr False
   \<and> fst (speakStoryMode (tts_env ok_synth) example_story after_abort) = Inr (js ''story'')
   \<and> calls (snd (speakStoryMode (tts_env ok_synth) example_story after_abort))
       = [AbortXiaoAI, Synthesize chunk_one, PlayUrl (js ''u'') False, Synthesize chunk_two,
          GetPlayingStatus, PlayUrl (js ''u'') False]
   \<and> engine_ready playing_env
   \<and> story_chunks playing_env example_story = [chunk_one, chunk_two]
   \<and> story_loop playing_env 0 [chunk_one] after_abort = (Inr (), after_chunk_one)
   \<and> tts_synthesize playing_env chunk_two after_chunk_one = (Inr (js ''u''), after_synth_two)
   \<and> (\<forall>j. status_outcome playing_env (calls after_synth_two @ poll_calls playing_env j)
            = Inr True)
   \<and> fst (speakStoryMode playing_env example_story after_abort) = Inl PlaybackWaitTimeout
   \<and> calls (snd (speakStoryMode playing_env example_story after_abort))
       = calls after_synth_two @ poll_calls playing_env 3
   \<and> now (snd (speakStoryMode playing_env example_story after_abort)) = 2100
   \<and> waitTimeoutMs (story playing_env) = 2000"
proof -
  let ?e = "tts_env ok_synth"
  let ?s1 = "after_abort\<lparr>calls := [AbortXiaoAI, Synthesize chunk_one]\<rparr>"
  have r1: "engine_ready ?e"
    by (simp add: engine_ready_def tts_env_sel)
  have k1: "story_chunks ?e example_story = [] @ chunk_one # [chunk_two]"
    "story_chunks ?e example_story = [chunk_one] @ chunk_two # []"
    by (simp_all add: story_chunks_example)
  have l0: "story_loop ?e 0 [] after_abort = (Inr (), after_abort)" by simp
  have s0: "tts_synthesize ?e chunk_one after_abort = (Inr (js ''u''), ?s1)"
    by (simp add: tts_env_tts tts_env_perform ok_synth_def after_abort_def state0_def)
  have l1: "story_loop ?e 0 [chunk_one] after_abort = (Inr (), after_chunk_one)"
    by (simp add: tts_env_tts tts_env_perform tts_env_sel ok_synth_def play_def of_outcome_def
        after_abort_def after_chunk_one_def state0_def)
  have s1: "tts_synthesize ?e chunk_two after_chunk_one = (Inr (js ''u''), after_synth_two)"
    by (simp add: tts_env_tts tts_env_perform ok_synth_def after_chunk_one_def
        after_synth_two_def state0_def)
  have w1: "waitForAudioComplete ?e after_synth_two
       = (Inr (), after_synth_two\<lparr>calls := calls after_synth_two @ [GetPlayingStatus]\<rparr>)"
    by (simp add: wait_eval tts_env_sel tts_env_perform after_synth_two_def state0_def)
  have o1: "status_outcome ?e (calls after_synth_two) = Inr False"
    by (simp add: tts_env_sel)
  note T0 = story_chunk_waits_for_playback[OF r1 k1(1) l0]
  from T0 s0 have c0: "speakStoryMode ?e example_story after_abort
       = await (play ?e (PlayUrl (js ''u'') False)) (\<lambda>_. story_from ?e 1 [chunk_two]) ?s1"
    by simp
  note T1 = story_chunk_waits_for_playback[OF r1 k1(2) l1]
  from T1 s1 w1 have e1: "speakStoryMode ?e example_story after_abort
       = await (play ?e (PlayUrl (js ''u'') False)) (\<lambda>_. story_from ?e (Suc (Suc 0)) [])
           (after_synth_two\<lparr>calls := calls after_synth_two @ [GetPlayingStatus]\<rparr>)"
    by simp
  have f1: "fst (speakStoryMode ?e example_story after_abort) = Inr (js ''story'')"
    and c1: "calls (snd (speakStoryMode ?e example_story after_abort))
       = [AbortXiaoAI, Synthesize chunk_one, PlayUrl (js ''u'') False, Synthesize chunk_two,
          GetPlayingStatus, PlayUrl (js ''u'') False]"
    by (simp_all add: e1 await_def ret_def story_from_def play_def of_outcome_def tts_env_sel
        tts_env_perform after_synth_two_def state0_def)
  have r2: "engine_ready playing_env"
    by (simp add: engine_ready_def playing_env_sel)
  have k2: "story_chunks playing_env example_story = [chunk_one] @ chunk_two # []"
    by (simp add: story_chunks_example)
  have l2: "story_loop playing_env 0 [chunk_one] after_abort = (Inr (), after_chunk_one)"
    by (simp add: playing_env_synthesize playing_env_perform playing_env_sel play_def
        of_outcome_def after_abort_def after_chunk_one_def state0_def)
  have s2: "tts_synthesize playing_env chunk_two after_chunk_one = (Inr (js ''u''), after_synth_two)"
    by (simp add: playing_env_synthesize playing_env_perform after_chunk_one_def
        after_synth_two_def state0_def)
  have a2: "\<forall>j. status_outcome playing_env (calls after_synth_two @ poll_calls playing_env j)
            = Inr True"
    by (simp add: playing_env_sel)
  have w2: "waitForAudioComplete playing_env after_synth_two
       = (Inl PlaybackWaitTimeout,
          after_synth_two\<lparr>calls := calls after_synth_two @ poll_calls playing_env 3,
             now := 2100\<rparr>)"
    by (simp add: wait_eval playing_env_sel playing_env_perform after_synth_two_def state0_def
        poll_calls_def numeral_3_eq_3)
  note T2 = story_chunk_waits_for_playback[OF r2 k2 l2]
  from T2 s2 a2 have f2: "fst (speakStoryMode playing_env example_story after_abort)
       = Inl PlaybackWaitTimeout"
    by simp
  from T2 s2 w2 have e2: "speakStoryMode playing_env example_story after_abort
       = (Inl PlaybackWaitTimeout,
          after_synth_two\<lparr>calls := calls after_synth_two @ poll_calls playing_env 3,
             now := 2100\<rparr>)"
    by simp
  have t2: "waitTimeoutMs (story playing_env) = 2000"
    by (simp add: playing_env_sel test_story_sel)
  from r1 l0 s0 c0 l1 s1 w1 o1 f1 c1 r2 l2 s2 a2 f2 t2 show ?thesis
    by (simp add: story_chunks_example e2)
qed

section \<open>The voice interpreter: leaving the conversation mode\<close>

lemma enqueue_and_await_tasks:
  "map entry_task (chain (snd (enqueue_and_await task ty q)))
     = map entry_task (chain q)
       @ [(or_else ty (js ''task''), wrappedTask task (or_else ty (js ''task'')))]"
proof -
  let ?q1 = "own_turn task ty q"
  have t: "map entry_task (chain ?q1) = map entry_task (chain (enqueueTask task ty q))"
    by (simp add: own_turn_def exec_drain_tasks)
  from own_turn_chain[of task ty q] have len: "length (chain ?q1) = Suc (length (chain q))"
    by simp
  have "map entry_task ((chain ?q1)[length (chain q) :=
           \<lparr>etype = or_else ty (js ''task''),
            ebody = wrappedTask task (or_else ty (js ''task'')), estate = settle r\<rparr>])
        = map entry_task (chain ?q1)" for r
    using own_turn_chain[of task ty q]
    by (auto simp: list_eq_iff_nth_eq nth_list_update entry_task_def)
  then show ?thesis
    by (simp add: enqueue_and_await_eq Let_def t enqueueTask_def entry_task_def)
qed

lemma enqueue_and_await_last:
  "estate (last (chain (snd (enqueue_and_await task ty q))))
     = settle (fst (enqueue_and_await task ty q))"
proof -
  from own_turn_chain[of task ty q] have "chain (own_turn task ty q) \<noteq> []"
    and "length (chain (own_turn task ty q)) = Suc (length (chain q))" by auto
  then show ?thesis
    by (simp add: enqueue_and_await_eq Let_def last_list_update)
qed

lemma set_aiConversationMode_twice [simp]:
  "set_aiConversationMode b (set_aiConversationMode b' q) = set_aiConversationMode b q"
  by (simp add: set_aiConversationMode_def)

lemma speakByText_single_mode [simp]:
  "aiConversationMode (snd (speakByText e text i False s)) = aiConversationMode s"
  by (auto simp: speakByText_def speakByTTS_def speakByXiaomi_def set_lastSpeak_def
      tts_synthesize_def tts_canSynthesize_def getEngineOrThrow_def action_defs device_defs
      split: option.splits sum.splits prod.splits if_splits)

lemma snd_as_val: "snd (as_val m s) = snd (m s)"
  by (simp add: as_val_eq split: prod.splits sum.splits)

lemma handle_exit:
  assumes "engine e = Some g" "\<not> isStopCommand (wakeup e) (normalizeText text)"
    "\<not> isEnterAIModeCommand (wakeup e) (normalizeText text)"
    "isExitAIModeCommand (wakeup e) (normalizeText text)"
  shows "handle e text q =
     (case enqueue_and_await (as_val (speakByText e (exitMessage (wakeup e)) True False))
             (js ''voice:exit-ai-mode'') (set_aiConversationMode False q) of
        (Inl err, q') \<Rightarrow> (Inl err, q')
      | (Inr _, q') \<Rightarrow> (Inr Handled, q'))"
  using assms by (simp add: handle_def Let_def)


lemmas handle_eval = handle_def normalizeText_def isStopCommand_def isEnterAIModeCommand_def
  isExitAIModeCommand_def findMatchedKeyword_def extractUserIntent_def isIntentLead_def
  isPunct_def js_includes_def set_aiConversationMode_def voice_stop_def voice_chat_def
  isStoryRequest_def

lemmas exit_env_eval = exit_env_def exit_wakeup_def exit_no_engine_env_def exit_stop_env_def
  exit_enter_env_def exit_offline_env_def active0_def

text \<open>
  C10, as the claim states it, fails in four ways, each for an utterance that normalizes
  to the configured exit phrase. With no engine, \<open>handle\<close> returns at once: nothing is
  enqueued and the flag stays set. When the phrase contains a stop keyword the stop
  check, which comes first, wins: the task is \<open>voice:stop\<close> and the flag stays set. When
  the phrase is also an enter phrase the enter check wins: the flag is set to true.
  When the play of the exit message fails, \<open>handle\<close> fails instead of returning handled.
\<close>

theorem exit_command_preconditions_counterexample:
  "isExitAIModeCommand (wakeup exit_no_engine_env) (normalizeText [0x9000, 0x51FA])
   \<and> handle exit_no_engine_env [0x9000, 0x51FA] (new_server active0)
       = (Inr NotHandled, new_server active0)
   \<and> aiConversationMode (st (new_server active0))
   \<and> isExitAIModeCommand (wakeup exit_stop_env) (normalizeText [0x9000, 0x51FA])
   \<and> map etype (chain (snd (handle exit_stop_env [0x9000, 0x51FA] (new_server active0))))
       = [js ''voice:stop'']
   \<and> aiConversationMode (st (snd (handle exit_stop_env [0x9000, 0x51FA] (new_server active0))))
   \<and> isExitAIModeCommand (wakeup exit_enter_env) (normalizeText [0x9000, 0x51FA])
   \<and> map etype (chain (snd (handle exit_enter_env [0x9000, 0x51FA] (new_server state0))))
       = [js ''voice:enter-ai-mode'']
   \<and> aiConversationMode (st (snd (handle exit_enter_env [0x9000, 0x51FA] (new_server state0))))
   \<and> isExitAIModeCommand (wakeup exit_offline_env) (normalizeText [0x9000, 0x51FA])
   \<and> fst (handle exit_offline_env [0x9000, 0x51FA] (new_server active0))
       = Inl (External (js ''offline''))"
  by (simp add: handle_eval exit_env_eval enqueue_and_await_def queue_eval await_entry_def
      speak_eval env_eval device_defs action_defs str_eval)


text \<open>
  C10, amended. When the engine is present and the utterance is neither a stop command
  nor an enter-mode command (both are checked first), an utterance that normalizes to
  an exit phrase is handled in the same way whatever the conversation-mode flag was:
  the flag is set to false, exactly one task is enqueued, of type
  \<open>voice:exit-ai-mode\<close>, whose body speaks the configured exit message with interrupt,
  and no other task (no AI query) is enqueued. \<open>handle\<close> awaits that task: it returns
  handled when the task is fulfilled and fails with the task's error when it is
  rejected. On a server with no task pending the flag is false afterwards.
\<close>

theorem exit_command_in_every_state:
  assumes "engine e = Some g" "\<not> isStopCommand (wakeup e) (normalizeText text)"
    "\<not> isEnterAIModeCommand (wakeup e) (normalizeText text)"
    "isExitAIModeCommand (wakeup e) (normalizeText text)"
  shows "handle e text (set_aiConversationMode b q) = handle e text (set_aiConversationMode False q)
    \<and> map etype (chain (snd (handle e text q))) = map etype (chain q) @ [js ''voice:exit-ai-mode'']
    \<and> ebody (last (chain (snd (handle e text q))))
        = wrappedTask (as_val (speakByText e (exitMessage (wakeup e)) True False))
            (js ''voice:exit-ai-mode'')
    \<and> (fst (handle e text q) = Inr Handled
          \<and> (\<exists>v. estate (last (chain (snd (handle e text q)))) = Fulfilled v)
        \<or> (\<exists>err. fst (handle e text q) = Inl err
                 \<and> estate (last (chain (snd (handle e text q)))) = Rejected err))
    \<and> (idle q \<longrightarrow> \<not> aiConversationMode (st (snd (handle e text q))))"
proof -
  let ?task = "as_val (speakByText e (exitMessage (wakeup e)) True False)"
  let ?ty = "js ''voice:exit-ai-mode''"
  let ?r = "enqueue_and_await ?task ?ty (set_aiConversationMode False q)"
  have ty: "or_else ?ty (js ''task'') = ?ty"
    by (simp add: or_else_def js_def)
  have h: "handle e text q' =
     (case enqueue_and_await ?task ?ty (set_aiConversationMode False q') of
        (Inl err, q'') \<Rightarrow> (Inl err, q'')
      | (Inr _, q'') \<Rightarrow> (Inr Handled, q''))" for q'
    by (rule handle_exit[OF assms])
  have snd_h: "snd (handle e text q) = snd ?r"
    by (simp add: h split: prod.splits sum.splits)
  have 1: "handle e text (set_aiConversationMode b q) = handle e text (set_aiConversationMode False q)"
    by (simp add: h)
  have tasks: "map entry_task (chain (snd ?r))
      = map entry_task (chain q) @ [(?ty, wrappedTask ?task ?ty)]"
    using enqueue_and_await_tasks[of ?task ?ty "set_aiConversationMode False q"]
    by (simp add: ty set_aiConversationMode_def)
  have 2: "map etype (chain (snd (handle e text q))) = map etype (chain q) @ [?ty]"
    using arg_cong[OF tasks, of "map fst"] by (simp add: snd_h entry_task_def comp_def)
  have "map entry_task (chain (snd ?r)) \<noteq> []" using tasks by simp
  then have ne: "chain (snd ?r) \<noteq> []" by auto
  have "last (map entry_task (chain (snd ?r))) = (?ty, wrappedTask ?task ?ty)"
    using tasks by simp
  then have 3: "ebody (last (chain (snd (handle e text q)))) = wrappedTask ?task ?ty"
    using ne by (simp add: snd_h last_map entry_task_def)
  have 4: "fst (handle e text q) = Inr Handled
          \<and> (\<exists>v. estate (last (chain (snd (handle e text q)))) = Fulfilled v)
        \<or> (\<exists>err. fst (handle e text q) = Inl err
                 \<and> estate (last (chain (snd (handle e text q)))) = Rejected err)"
    using enqueue_and_await_last[of ?task ?ty "set_aiConversationMode False q"]
    by (cases ?r; cases "fst ?r") (auto simp: h settle_def)
  have 5: "\<not> aiConversationMode (st (snd (handle e text q)))" if "idle q"
  proof -
    from that have "idle (set_aiConversationMode False q)"
      by (simp add: idle_def set_aiConversationMode_def)
    from own_turn_idle[OF this, of ?task ?ty]
    have "aiConversationMode (st (snd ?r))
          = aiConversationMode (snd (?task ((st q)\<lparr>aiConversationMode := False,
                queueDepth := queueDepth (st q) + 1\<rparr>)))"
      by (simp add: enqueue_and_await_eq Let_def enqueueTask_def set_aiConversationMode_def
          wrappedTask_def task_finally_def split: prod.splits sum.splits)
    then show ?thesis
      by (simp add: snd_h snd_as_val)
  qed
  from 1 2 3 4 5 show ?thesis by blast
qed


theorem exit_command_in_every_state_witness:
  "engine exit_env = Some \<lparr>MiNA = True, MiOT = True\<rparr>
   \<and> \<not> isStopCommand (wakeup exit_env) (normalizeText exit_utterance)
   \<and> \<not> isEnterAIModeCommand (wakeup exit_env) (normalizeText exit_utterance)
   \<and> isExitAIModeCommand (wakeup exit_env) (normalizeText exit_utterance)
   \<and> idle (new_server state0)
   \<and> handle exit_env exit_utterance (new_server active0)
       = handle exit_env exit_utterance (new_server state0)
   \<and> fst (handle exit_env exit_utterance (new_server state0)) = Inr Handled
   \<and> map etype (chain (snd (handle exit_env exit_utterance (new_server state0))))
       = [js ''voice:exit-ai-mode'']
   \<and> \<not> aiConversationMode (st (snd (handle exit_env exit_utterance (new_server active0))))
   \<and> calls (st (snd (handle exit_env exit_utterance (new_server state0))))
       = [AbortXiaoAI, PlayText (js ''exit'')]"
proof -
  have g: "engine exit_env = Some \<lparr>MiNA = True, MiOT = True\<rparr>"
    by (simp add: exit_env_def ok_env_def)
  have c: "\<not> isStopCommand (wakeup exit_env) (normalizeText exit_utterance)"
    "\<not> isEnterAIModeCommand (wakeup exit_env) (normalizeText exit_utterance)"
    "isExitAIModeCommand (wakeup exit_env) (normalizeText exit_utterance)"
    by (simp_all add: handle_eval exit_env_eval exit_utterance_def env_eval str_eval)
  have i: "idle (new_server state0)"
    by (simp add: idle_def new_server_def)
  have a: "new_server active0 = set_aiConversationMode True (new_server state0)"
    and n: "new_server state0 = set_aiConversationMode False (new_server state0)"
    by (simp_all add: new_server_def active0_def set_aiConversationMode_def state0_def)
  have ev: "fst (handle exit_env exit_utterance (new_server state0)) = Inr Handled"
    "calls (st (snd (handle exit_env exit_utterance (new_server state0))))
       = [AbortXiaoAI, PlayText (js ''exit'')]"
    by (simp_all add: handle_eval exit_env_eval exit_utterance_def enqueue_and_await_def
        queue_eval await_entry_def speak_eval env_eval device_defs action_defs str_eval)
  note T = exit_command_in_every_state[OF g c, of True "new_server state0"]
  from T a n have 1: "handle exit_env exit_utterance (new_server active0)
       = handle exit_env exit_utterance (new_server state0)"
    by metis
  from T have 2: "map etype (chain (snd (handle exit_env exit_utterance (new_server state0))))
       = [js ''voice:exit-ai-mode'']"
    by (simp add: new_server_def)
  from T i have "\<not> aiConversationMode (st (snd (handle exit_env exit_utterance (new_server state0))))"
    by blast
  with 1 have 3: "\<not> aiConversationMode (st (snd (handle exit_env exit_utterance
        (new_server active0))))"
    by simp
  from g c i 1 2 3 ev show ?thesis by blast
qed

section \<open>The voice interpreter: wake keywords\<close>

lemma indexOf_first:
  "indexOf s k = Some i \<Longrightarrow>
     prefix k (drop i s) \<and> (\<forall>j<i. \<not> prefix k (drop j s))"
proof (induction s arbitrary: i)
  case Nil
  then show ?case by (auto split: if_splits)
next
  case (Cons c cs)
  show ?case
  proof (cases "prefix k (c # cs)")
    case True
    with Cons.prems show ?thesis by simp
  next
    case False
    with Cons.prems obtain i' where i': "indexOf cs k = Some i'" "i = Suc i'"
      by auto
    from Cons.IH[OF i'(1)] have ih: "prefix k (drop i' cs)" "\<forall>j<i'. \<not> prefix k (drop j cs)"
      by auto
    have "\<not> prefix k (drop j (c # cs))" if "j < i" for j
      using that False ih(2) i'(2) by (cases j) auto
    with ih(1) i'(2) show ?thesis by simp
  qed
qed

lemma findMatchedKeyword_Some:
  "findMatchedKeyword w text = Some kw \<Longrightarrow> kw \<in> set (wake_keywords w) \<and> js_includes text kw"
  by (auto simp: findMatchedKeyword_def find_Some_iff)

lemma handle_wake_keyword:
  assumes "engine e = Some g" "\<not> isStopCommand (wakeup e) (normalizeText text)"
    "\<not> isEnterAIModeCommand (wakeup e) (normalizeText text)"
    "\<not> isExitAIModeCommand (wakeup e) (normalizeText text)"
    "findMatchedKeyword (wakeup e) text = Some kw" "kw \<noteq> []"
  shows "handle e text q =
     (if extractUserIntent text kw = [] then (Inr Handled, q)
      else (Inr Handled,
            enqueueTask (voice_chat e (extractUserIntent text kw)) (js ''voice:chat'') q))"
  using assms by (simp add: handle_def Let_def)

lemmas wake_eval = wake_env_def wake_wakeup_def weather_utterance_def weather_intent_def

text \<open>
  C7, as the claim states it, fails on utterances that contain a wake keyword while the
  conversation mode is inactive. An utterance that also contains a stop keyword is
  handled as a stop command (the device is told to stop, no AI is asked); one that
  normalizes to an enter or exit phrase is handled as that command. The intent is also
  trimmed at its end: for a keyword followed by two characters and a space, the text
  after the keyword with its leading punctuation and whitespace stripped still ends
  with the space, the intent does not. When the first configured keyword that matches
  is the empty string, or when there is no engine, the utterance is not handled at all.
\<close>

theorem wake_keyword_precedence_counterexample:
  "js_includes [0x8BF7, 0x95ED, 0x5634] [0x8BF7]
   \<and> \<not> aiConversationMode (st (new_server state0))
   \<and> map etype (chain (snd (handle (wake_env (wake_wakeup\<lparr>stopKeywords := [[0x95ED, 0x5634]]\<rparr>))
          [0x8BF7, 0x95ED, 0x5634] (new_server state0)))) = [js ''voice:stop'']
   \<and> calls (st (snd (handle (wake_env (wake_wakeup\<lparr>stopKeywords := [[0x95ED, 0x5634]]\<rparr>))
          [0x8BF7, 0x95ED, 0x5634] (new_server state0)))) = [AbortXiaoAI, MinaStop]
   \<and> map etype (chain (snd (handle
          (wake_env (no_wakeup\<lparr>wake_keywords := [[0x8C46, 0x5305]],
                                 enterAIMode := [[0x8FDB, 0x5165, 0x8C46, 0x5305]]\<rparr>))
          [0x8FDB, 0x5165, 0x8C46, 0x5305] (new_server state0)))) = [js ''voice:enter-ai-mode'']
   \<and> map etype (chain (snd (handle
          (wake_env (no_wakeup\<lparr>wake_keywords := [[0x8C46, 0x5305]],
                                 exitAIMode := [[0x9000, 0x51FA, 0x8C46, 0x5305]]\<rparr>))
          [0x9000, 0x51FA, 0x8C46, 0x5305] (new_server state0)))) = [js ''voice:exit-ai-mode'']
   \<and> indexOf [0x8BF7, 0x5929, 0x6C14, 0x20] [0x8BF7] = Some 0
   \<and> dropWhile isIntentLead (drop 1 [0x8BF7, 0x5929, 0x6C14, 0x20]) = [0x5929, 0x6C14, 0x20]
   \<and> extractUserIntent [0x8BF7, 0x5929, 0x6C14, 0x20] [0x8BF7] = [0x5929, 0x6C14]
   \<and> js_includes weather_utterance [0x8BF7]
   \<and> handle (wake_env (no_wakeup\<lparr>wake_keywords := [[], [0x8BF7]]\<rparr>)) weather_utterance
        (new_server state0) = (Inr NotHandled, new_server state0)
   \<and> handle ((wake_env wake_wakeup)\<lparr>engine := None\<rparr>) weather_utterance (new_server state0)
        = (Inr NotHandled, new_server state0)"
  by (simp add: handle_eval wake_eval enqueue_and_await_def queue_eval await_entry_def
      speak_eval env_eval device_defs action_defs str_eval)

text \<open>
  C7, amended. When the engine is present and the utterance is not a stop, enter-mode
  or exit-mode command (these are checked first, on the normalized text), and the first
  configured wake keyword that the raw utterance contains is not empty, then, whatever
  the conversation mode, the utterance is an AI query: its intent is what follows the
  first occurrence of that keyword in the raw utterance, with whitespace trimmed at
  both ends and then leading punctuation, colons and whitespace stripped. If the intent
  is not empty, \<open>handle\<close> returns handled at once and has enqueued one task of type
  \<open>voice:chat\<close> that asks the AI for this intent; if it is empty, \<open>handle\<close> returns
  handled and enqueues nothing. For the keyword U+8BF7 the example utterance has the
  intent of the specification.
\<close>

theorem wake_keyword_query:
  assumes "engine e = Some g" "\<not> isStopCommand (wakeup e) (normalizeText text)"
    "\<not> isEnterAIModeCommand (wakeup e) (normalizeText text)"
    "\<not> isExitAIModeCommand (wakeup e) (normalizeText text)"
    "findMatchedKeyword (wakeup e) text = Some kw" "kw \<noteq> []"
  shows "kw \<in> set (wake_keywords (wakeup e)) \<and> js_includes text kw
    \<and> (\<exists>i. indexOf text kw = Some i \<and> prefix kw (drop i text)
            \<and> (\<forall>j<i. \<not> prefix kw (drop j text))
            \<and> extractUserIntent text kw
                = dropWhile isIntentLead (trim (drop (i + length kw) text)))
    \<and> (extractUserIntent text kw \<noteq> [] \<longrightarrow>
          handle e text q
            = (Inr Handled,
               enqueueTask (voice_chat e (extractUserIntent text kw)) (js ''voice:chat'') q))
    \<and> (extractUserIntent text kw = [] \<longrightarrow> handle e text q = (Inr Handled, q))
    \<and> extractUserIntent weather_utterance [0x8BF7] = weather_intent"
proof -
  from findMatchedKeyword_Some[OF assms(5)]
  have 1: "kw \<in> set (wake_keywords (wakeup e))" and inc: "js_includes text kw" by auto
  from inc obtain i where i: "indexOf text kw = Some i"
    by (auto simp: js_includes_def)
  from indexOf_first[OF i] i
  have 2: "\<exists>i. indexOf text kw = Some i \<and> prefix kw (drop i text)
            \<and> (\<forall>j<i. \<not> prefix kw (drop j text))
            \<and> extractUserIntent text kw
                = dropWhile isIntentLead (trim (drop (i + length kw) text))"
    by (auto simp: extractUserIntent_def Let_def)
  note h = handle_wake_keyword[OF assms, of q]
  have 3: "extractUserIntent weather_utterance [0x8BF7] = weather_intent"
    by (simp add: extractUserIntent_def weather_utterance_def weather_intent_def
        isIntentLead_def isPunct_def str_eval)
  from 1 inc 2 3 h show ?thesis by simp
qed


theorem wake_keyword_query_witness:
  "engine (wake_env wake_wakeup) = Some \<lparr>MiNA = True, MiOT = True\<rparr>
   \<and> \<not> isStopCommand (wakeup (wake_env wake_wakeup)) (normalizeText weather_utterance)
   \<and> \<not> isEnterAIModeCommand (wakeup (wake_env wake_wakeup)) (normalizeText weather_utterance)
   \<and> \<not> isExitAIModeCommand (wakeup (wake_env wake_wakeup)) (normalizeText weather_utterance)
   \<and> findMatchedKeyword (wakeup (wake_env wake_wakeup)) weather_utterance = Some [0x8BF7]
   \<and> extractUserIntent weather_utterance [0x8BF7] = weather_intent
   \<and> weather_intent \<noteq> []
   \<and> handle (wake_env wake_wakeup) weather_utterance (new_server state0)
       = (Inr Handled,
          enqueueTask (voice_chat (wake_env wake_wakeup) weather_intent) (js ''voice:chat'')
            (new_server state0))
   \<and> calls (st (drain (snd (handle (wake_env wake_wakeup) weather_utterance (new_server state0)))))
       = [AbortXiaoAI, AskAI weather_intent, PlayText (js ''hi'')]
   \<and> findMatchedKeyword (wakeup (wake_env wake_wakeup)) [0x8BF7, 0x3002] = Some [0x8BF7]
   \<and> extractUserIntent [0x8BF7, 0x3002] [0x8BF7] = []
   \<and> handle (wake_env wake_wakeup) [0x8BF7, 0x3002] (new_server state0)
       = (Inr Handled, new_server state0)"
proof -
  let ?e = "wake_env wake_wakeup"
  have g: "engine ?e = Some \<lparr>MiNA = True, MiOT = True\<rparr>"
    by (simp add: wake_env_def ok_env_def)
  have c: "\<not> isStopCommand (wakeup ?e) (normalizeText weather_utterance)"
    "\<not> isEnterAIModeCommand (wakeup ?e) (normalizeText weather_utterance)"
    "\<not> isExitAIModeCommand (wakeup ?e) (normalizeText weather_utterance)"
    by (simp_all add: handle_eval wake_eval env_eval)
  have c': "\<not> isStopCommand (wakeup ?e) (normalizeText [0x8BF7, 0x3002])"
    "\<not> isEnterAIModeCommand (wakeup ?e) (normalizeText [0x8BF7, 0x3002])"
    "\<not> isExitAIModeCommand (wakeup ?e) (normalizeText [0x8BF7, 0x3002])"
    by (simp_all add: handle_eval wake_eval env_eval)
  have f: "findMatchedKeyword (wakeup ?e) weather_utterance = Some [0x8BF7]"
    "findMatchedKeyword (wakeup ?e) [0x8BF7, 0x3002] = Some [0x8BF7]"
    by (simp_all add: handle_eval wake_eval env_eval)
  have k: "[0x8BF7 :: jschar] \<noteq> []" by simp
  have n: "weather_intent \<noteq> []" by (simp add: weather_intent_def)
  have x: "extractUserIntent [0x8BF7, 0x3002] [0x8BF7] = []"
    by (simp add: handle_eval str_eval)
  note T = wake_keyword_query[OF g c f(1) k, of "new_server state0"]
  from T have i: "extractUserIntent weather_utterance [0x8BF7] = weather_intent"
    by blast
  from T i n have h: "handle ?e weather_utterance (new_server state0)
       = (Inr Handled,
          enqueueTask (voice_chat ?e weather_intent) (js ''voice:chat'') (new_server state0))"
    by simp
  have d: "calls (st (drain (enqueueTask (voice_chat ?e weather_intent) (js ''voice:chat'')
               (new_server state0))))
       = [AbortXiaoAI, AskAI weather_intent, PlayText (js ''hi'')]"
    by (simp add: handle_eval wake_eval queue_eval speak_eval env_eval device_defs action_defs
        str_eval)
  note T' = wake_keyword_query[OF g c' f(2) k, of "new_server state0"]
  from T' x have h': "handle ?e [0x8BF7, 0x3002] (new_server state0)
       = (Inr Handled, new_server state0)"
    by simp
  from g c f i n h d x h' show ?thesis by simp
qed

end
